theory Spec2Isabelle
  imports Main "HOL-Library.Sublist"
begin

section \<open>Python values and the operations the client applies to them\<close>

text \<open>
  The client in \<^verbatim>\<open>sharepoint_api.py\<close> works on what \<^verbatim>\<open>response.json()\<close> returns: Python
  dictionaries, lists, strings, numbers, booleans and \<^verbatim>\<open>None\<close>. A dictionary is an
  association list in insertion order (its keys are distinct, as the decoder produces
  them), \<^verbatim>\<open>None\<close> is \<open>JNull\<close>. Numbers are integers; floating point numbers are outside
  the model. Strings are byte strings, so the model speaks about ASCII text.
\<close>

datatype json =
    JNull
  | JBool bool
  | JNum int
  | JStr string
  | JArr "json list"
  | JObj "(string \<times> json) list"

text \<open>The exceptions that the modelled code paths can raise.\<close>

datatype error =
    KeyError string
  | TypeError
  | ValueError
  | AttributeError
  | JSONDecodeError
  | RequestException
  | FileNotFoundError
  | NotADirectoryError
  | IsADirectoryError
  | FileExistsError

text \<open>\<^verbatim>\<open>k in s\<close> for two strings: \<open>k\<close> occurs in \<open>s\<close> as a contiguous piece.\<close>

fun str_contains :: "string \<Rightarrow> string \<Rightarrow> bool" where
  "str_contains k [] = (k = [])"
| "str_contains k (c # cs) = (prefix k (c # cs) \<or> str_contains k cs)"

text \<open>
  \<^verbatim>\<open>key in x\<close> for a string key: key membership on a dictionary, element membership on
  a list, substring test on a string, \<^verbatim>\<open>TypeError\<close> on anything else.
\<close>

fun py_in :: "string \<Rightarrow> json \<Rightarrow> error + bool" where
  "py_in key (JObj kvs) = Inr (key \<in> set (map fst kvs))"
| "py_in key (JArr xs) = Inr (JStr key \<in> set xs)"
| "py_in key (JStr s) = Inr (str_contains key s)"
| "py_in key JNull = Inl TypeError"
| "py_in key (JBool b) = Inl TypeError"
| "py_in key (JNum n) = Inl TypeError"

text \<open>
  \<^verbatim>\<open>x[key]\<close> for a string key: \<^verbatim>\<open>KeyError\<close> on a dictionary without the key,
  \<^verbatim>\<open>TypeError\<close> on every other value (lists and strings want integer indices, the rest
  is not subscriptable).
\<close>

fun py_getitem :: "json \<Rightarrow> string \<Rightarrow> error + json" where
  "py_getitem (JObj kvs) key =
     (case map_of kvs key of None \<Rightarrow> Inl (KeyError key) | Some v \<Rightarrow> Inr v)"
| "py_getitem (JArr xs) key = Inl TypeError"
| "py_getitem (JStr s) key = Inl TypeError"
| "py_getitem JNull key = Inl TypeError"
| "py_getitem (JBool b) key = Inl TypeError"
| "py_getitem (JNum n) key = Inl TypeError"

text \<open>\<^verbatim>\<open>x.get(key)\<close>: only dictionaries have the method; a missing key gives \<^verbatim>\<open>None\<close>.\<close>

fun py_get :: "json \<Rightarrow> string \<Rightarrow> error + json" where
  "py_get (JObj kvs) key =
     (case map_of kvs key of None \<Rightarrow> Inr JNull | Some v \<Rightarrow> Inr v)"
| "py_get (JArr xs) key = Inl AttributeError"
| "py_get (JStr s) key = Inl AttributeError"
| "py_get JNull key = Inl AttributeError"
| "py_get (JBool b) key = Inl AttributeError"
| "py_get (JNum n) key = Inl AttributeError"

text \<open>
  \<^verbatim>\<open>for item in x\<close>: the elements of a list, the keys of a dictionary, the characters of
  a string; \<^verbatim>\<open>TypeError\<close> on a value that is not iterable.
\<close>

fun py_iter :: "json \<Rightarrow> error + json list" where
  "py_iter (JArr xs) = Inr xs"
| "py_iter (JObj kvs) = Inr (map (\<lambda>kv. JStr (fst kv)) kvs)"
| "py_iter (JStr s) = Inr (map (\<lambda>c. JStr [c]) s)"
| "py_iter JNull = Inl TypeError"
| "py_iter (JBool b) = Inl TypeError"
| "py_iter (JNum n) = Inl TypeError"

subsection \<open>Formatting values inside f-strings\<close>

definition digit_char :: "nat \<Rightarrow> char" where
  "digit_char d = ''0123456789'' ! d"

fun str_nat :: "nat \<Rightarrow> string" where
  "str_nat n = (if n < 10 then [digit_char n] else str_nat (n div 10) @ [digit_char (n mod 10)])"

declare str_nat.simps [simp del]

definition str_int :: "int \<Rightarrow> string" where
  "str_int i = (if i < 0 then CHR ''-'' # str_nat (nat (- i)) else str_nat (nat i))"

definition hex_char :: "nat \<Rightarrow> char" where
  "hex_char d = ''0123456789abcdef'' ! d"

text \<open>
  \<^verbatim>\<open>repr\<close> of a string: single quotes, unless the string holds a single quote and no
  double quote; backslash, the chosen quote, newline, carriage return and tab are
  escaped, other control characters are written \<^verbatim>\<open>\xNN\<close>.
\<close>

definition repr_char :: "char \<Rightarrow> char \<Rightarrow> string" where
  "repr_char q c =
     (if c = CHR 0x5C then [CHR 0x5C, CHR 0x5C]
      else if c = q then [CHR 0x5C, q]
      else if c = CHR 0x0A then [CHR 0x5C, CHR ''n'']
      else if c = CHR 0x0D then [CHR 0x5C, CHR ''r'']
      else if c = CHR 0x09 then [CHR 0x5C, CHR ''t'']
      else if (of_char c :: nat) < 32 \<or> (of_char c :: nat) = 127
        then [CHR 0x5C, CHR ''x'', hex_char ((of_char c :: nat) div 16), hex_char ((of_char c :: nat) mod 16)]
      else [c])"

definition repr_str :: "string \<Rightarrow> string" where
  "repr_str s =
     (let q = (if CHR 0x27 \<in> set s \<and> CHR 0x22 \<notin> set s then CHR 0x22 else CHR 0x27)
      in q # concat (map (repr_char q) s) @ [q])"

fun join_with :: "string \<Rightarrow> string list \<Rightarrow> string" where
  "join_with sep [] = []"
| "join_with sep [x] = x"
| "join_with sep (x # y # ys) = x @ sep @ join_with sep (y # ys)"

fun py_repr :: "json \<Rightarrow> string" where
  "py_repr JNull = ''None''"
| "py_repr (JBool b) = (if b then ''True'' else ''False'')"
| "py_repr (JNum n) = str_int n"
| "py_repr (JStr s) = repr_str s"
| "py_repr (JArr xs) = ''['' @ join_with '', '' (map py_repr xs) @ '']''"
| "py_repr (JObj kvs) =
     ''{'' @ join_with '', '' (map (\<lambda>kv. repr_str (fst kv) @ '': '' @ py_repr (snd kv)) kvs) @ ''}''"

text \<open>\<^verbatim>\<open>str(x)\<close>, which an f-string applies to each interpolated value.\<close>

fun py_str :: "json \<Rightarrow> string" where
  "py_str (JStr s) = s"
| "py_str v = py_repr v"

section \<open>The outside world: HTTP, the local filesystem, the console\<close>

subsection \<open>HTTP\<close>

text \<open>
  A request is what \<^verbatim>\<open>requests.get\<close> and \<^verbatim>\<open>requests.post\<close> are given. A response carries
  the fields the client reads: \<^verbatim>\<open>status_code\<close>, \<^verbatim>\<open>reason\<close>, \<^verbatim>\<open>content\<close>, and the result
  of \<^verbatim>\<open>response.json()\<close> (\<open>None\<close> when the body does not decode, in which case the call
  raises). The remote side is a function from requests to responses or to the exception
  that the HTTP library raises; the same request gets the same answer, which is how an
  unchanged remote side behaves.
\<close>

record request =
  req_method :: string
  req_url :: string
  req_headers :: "(string \<times> string) list"
  req_data :: "(string \<times> string) list"

record response =
  status_code :: int
  reason :: string
  content :: string
  body_json :: "json option"

type_synonym remote = "request \<Rightarrow> error + response"

definition json_of :: "response \<Rightarrow> error + json" where
  "json_of r = (case body_json r of None \<Rightarrow> Inl JSONDecodeError | Some j \<Rightarrow> Inr j)"

subsection \<open>Local paths and the local filesystem\<close>

text \<open>
  Paths are POSIX path strings, and the filesystem is the one a Linux process sees. It
  maps the place of a node, the list of names that lead to it from the root directory,
  to a directory or to a file with its bytes; the root directory itself is the place
  \<open>[]\<close> and is always there, and the working directory of the process is a place. A path
  is looked up the way the kernel does it, component by component, starting at the root
  for a path with a leading slash and at the working directory otherwise: an empty
  component and \<^verbatim>\<open>.\<close> stay where they are, \<^verbatim>\<open>..\<close> goes to the parent (the root is its own
  parent), and a name goes to the entry of that name, which must be a directory whenever
  more of the path follows. So \<^verbatim>\<open>a/b/..\<close> is \<^verbatim>\<open>a\<close> only if \<^verbatim>\<open>a/b\<close> is a directory. The
  working directory and the directories above it are taken to be there, whatever the map
  says, and an entry counts only when the walk reaches it. Symbolic links, permissions
  and the limits on the length of names and paths are outside the model.
\<close>

datatype node = Dir | File string

type_synonym filesystem = "string list \<Rightarrow> node option"

fun split_path :: "string \<Rightarrow> string list" where
  "split_path [] = [[]]"
| "split_path (c # cs) =
     (if c = CHR ''/'' then [] # split_path cs
      else (case split_path cs of [] \<Rightarrow> [[c]] | x # xs \<Rightarrow> (c # x) # xs))"

definition components :: "string \<Rightarrow> string list" where
  "components p = filter (\<lambda>c. c \<noteq> []) (split_path p)"

definition start_dir :: "string list \<Rightarrow> string \<Rightarrow> string list" where
  "start_dir wd p = (if p \<noteq> [] \<and> hd p = CHR ''/'' then [] else wd)"

definition ends_with_slash :: "string \<Rightarrow> bool" where
  "ends_with_slash p = (p \<noteq> [] \<and> last p = CHR ''/'')"

text \<open>
  Walking from the directory \<open>d\<close> through the components \<open>cs\<close>, each of which has to lead
  to a directory: \<^verbatim>\<open>ENOENT\<close> where an entry is missing, \<^verbatim>\<open>ENOTDIR\<close> where it is a file.
\<close>

fun walk :: "filesystem \<Rightarrow> string list \<Rightarrow> string list \<Rightarrow> error + string list" where
  "walk f d [] = Inr d"
| "walk f d (c # cs) =
     (if c = ''.'' then walk f d cs
      else if c = ''..'' then walk f (butlast d) cs
      else (case f (d @ [c]) of
              None \<Rightarrow> Inl FileNotFoundError
            | Some (File b) \<Rightarrow> Inl NotADirectoryError
            | Some Dir \<Rightarrow> walk f (d @ [c]) cs))"

text \<open>
  What a path names once all components but the last have been walked: a directory that
  is known to be there (the path is the root, or ends in \<^verbatim>\<open>.\<close> or \<^verbatim>\<open>..\<close>), or the entry of
  the last name in the directory reached, which may or may not exist. A path with a NUL
  character is refused by Python before the kernel sees it (\<^verbatim>\<open>ValueError\<close>); the empty
  path is \<^verbatim>\<open>ENOENT\<close>.
\<close>

datatype place = Directory "string list" | Entry "string list"

definition path_target :: "string list \<Rightarrow> filesystem \<Rightarrow> string \<Rightarrow> error + place" where
  "path_target wd f p =
     (if CHR 0x00 \<in> set p then Inl ValueError
      else if p = [] then Inl FileNotFoundError
      else if components p = [] then Inr (Directory [])
      else
        (case walk f (start_dir wd p) (butlast (components p)) of
           Inl e \<Rightarrow> Inl e
         | Inr d \<Rightarrow>
             if last (components p) = ''.'' then Inr (Directory d)
             else if last (components p) = ''..'' then Inr (Directory (butlast d))
             else Inr (Entry (d @ [last (components p)]))))"

text \<open>\<^verbatim>\<open>os.path.join(a, b)\<close>; the second argument comes from the remote side and must be a string.\<close>

definition os_path_join :: "string \<Rightarrow> json \<Rightarrow> error + string" where
  "os_path_join a b =
     (case b of
        JStr s \<Rightarrow>
          if s \<noteq> [] \<and> hd s = CHR ''/'' then Inr s
          else if a = [] \<or> last a = CHR ''/'' then Inr (a @ s)
          else Inr (a @ ''/'' @ s)
      | _ \<Rightarrow> Inl TypeError)"

text \<open>
  \<^verbatim>\<open>os.path.exists(p)\<close>: whether \<^verbatim>\<open>os.stat(p)\<close> succeeds; every error is \<^verbatim>\<open>False\<close>. A file
  does not answer to a path with a trailing slash.
\<close>

definition os_path_exists :: "string list \<Rightarrow> filesystem \<Rightarrow> string \<Rightarrow> bool" where
  "os_path_exists wd f p =
     (case path_target wd f p of
        Inl e \<Rightarrow> False
      | Inr (Directory d) \<Rightarrow> True
      | Inr (Entry q) \<Rightarrow>
          (case f q of
             None \<Rightarrow> False
           | Some Dir \<Rightarrow> True
           | Some (File b) \<Rightarrow> \<not> ends_with_slash p))"

text \<open>
  \<^verbatim>\<open>os.mkdir(p)\<close>: the directories on the way must be there; \<^verbatim>\<open>EEXIST\<close> when the path names
  something that exists, also through \<^verbatim>\<open>.\<close> or \<^verbatim>\<open>..\<close>. The result is the outcome together with
  the filesystem as the call left it.
\<close>

definition os_mkdir :: "string list \<Rightarrow> filesystem \<Rightarrow> string \<Rightarrow> (error + unit) \<times> filesystem" where
  "os_mkdir wd f p =
     (case path_target wd f p of
        Inl e \<Rightarrow> (Inl e, f)
      | Inr (Directory d) \<Rightarrow> (Inl FileExistsError, f)
      | Inr (Entry q) \<Rightarrow>
          if f q \<noteq> None then (Inl FileExistsError, f) else (Inr (), f(q \<mapsto> Dir)))"

text \<open>
  \<^verbatim>\<open>os.path.split(p)\<close>: the part up to the last slash, without its trailing slashes unless
  it consists of slashes only, and the part after the last slash.
\<close>

definition rstrip_slash :: "string \<Rightarrow> string" where
  "rstrip_slash s = rev (dropWhile (\<lambda>c. c = CHR ''/'') (rev s))"

definition path_split :: "string \<Rightarrow> string \<times> string" where
  "path_split p =
     (let head = rev (dropWhile (\<lambda>c. c \<noteq> CHR ''/'') (rev p));
          tail = rev (takeWhile (\<lambda>c. c \<noteq> CHR ''/'') (rev p))
      in (if head \<noteq> [] \<and> head \<noteq> replicate (length head) (CHR ''/'') then rstrip_slash head else head,
          tail))"

text \<open>
  \<^verbatim>\<open>os.makedirs(name)\<close>, with \<^verbatim>\<open>exist_ok\<close> left at \<^verbatim>\<open>False\<close>, as the library has it:

  \<^verbatim>\<open>head, tail = path.split(name)\<close>
  \<^verbatim>\<open>if not tail: head, tail = path.split(head)\<close>
  \<^verbatim>\<open>if head and tail and not path.exists(head):\<close>
  \<^verbatim>\<open>    try: makedirs(head, exist_ok=exist_ok)\<close>
  \<^verbatim>\<open>    except FileExistsError: pass\<close>
  \<^verbatim>\<open>    if tail == curdir: return\<close>
  \<^verbatim>\<open>mkdir(name, mode)\<close>

  The call for \<^verbatim>\<open>head\<close> may have made directories before the final \<^verbatim>\<open>mkdir\<close> raises, so
  the result carries the filesystem as the call left it, also when it raises.
\<close>

definition makedirs_parts :: "string \<Rightarrow> string \<times> string" where
  "makedirs_parts name =
     (let (head, tail) = path_split name
      in if tail = [] then path_split head else (head, tail))"

function os_makedirs :: "string list \<Rightarrow> filesystem \<Rightarrow> string \<Rightarrow> (error + unit) \<times> filesystem" where
  "os_makedirs wd f name =
     (let (head, tail) = makedirs_parts name in
      if head \<noteq> [] \<and> tail \<noteq> [] \<and> \<not> os_path_exists wd f head then
        (case os_makedirs wd f head of
           (Inl e, f1) \<Rightarrow>
             if e \<noteq> FileExistsError then (Inl e, f1)
             else if tail = ''.'' then (Inr (), f1)
             else os_mkdir wd f1 name
         | (Inr u, f1) \<Rightarrow>
             if tail = ''.'' then (Inr (), f1) else os_mkdir wd f1 name)
      else os_mkdir wd f name)"
  by pat_completeness auto
termination
proof (relation "measure (\<lambda>(wd, f, name). length name)")
  show "wf (measure (\<lambda>(wd, f, name). length name))" by simp
next
  fix wd :: "string list" and f :: filesystem and name :: string and x :: "string \<times> string"
    and head tail :: string
  assume x: "x = makedirs_parts name" and ht: "(head, tail) = x"
    and c: "head \<noteq> [] \<and> tail \<noteq> [] \<and> \<not> os_path_exists wd f head"
  have le: "length (fst (path_split s)) + length (snd (path_split s)) \<le> length s" for s
  proof -
    let ?h = "rev (dropWhile (\<lambda>c. c \<noteq> CHR ''/'') (rev s))"
    let ?t = "rev (takeWhile (\<lambda>c. c \<noteq> CHR ''/'') (rev s))"
    have a: "length ?h + length ?t = length s"
      using takeWhile_dropWhile_id[of "\<lambda>c. c \<noteq> CHR ''/''" "rev s"]
      by (metis add.commute length_append length_rev)
    have b: "length (rstrip_slash ?h) \<le> length ?h"
      using length_dropWhile_le[of "\<lambda>c. c = CHR ''/''" "rev ?h"] by (simp add: rstrip_slash_def)
    have "length (fst (path_split s)) \<le> length ?h"
      using b by (simp add: path_split_def Let_def)
    moreover have "snd (path_split s) = ?t" by (simp add: path_split_def Let_def)
    ultimately show ?thesis using a by simp
  qed
  have "length head + length tail \<le> length name"
  proof (cases "snd (path_split name) = []")
    case True
    with x ht have "(head, tail) = path_split (fst (path_split name))"
      by (simp add: makedirs_parts_def Let_def split: prod.splits)
    then have "length head + length tail \<le> length (fst (path_split name))"
      using le[of "fst (path_split name)"] by (metis fst_conv snd_conv)
    with le[of name] show ?thesis by simp
  next
    case False
    with x ht have "(head, tail) = path_split name"
      by (simp add: makedirs_parts_def Let_def split: prod.splits)
    then show ?thesis using le[of name] by (metis fst_conv snd_conv)
  qed
  with c show "((wd, f, head), (wd, f, name)) \<in> measure (\<lambda>(wd, f, name). length name)"
    by (cases tail) auto
qed

declare os_makedirs.simps [simp del]

text \<open>
  \<^verbatim>\<open>with open(p, 'wb') as file: file.write(bytes)\<close>: the file is created or replaced in the
  directory that the path leads to; a path that names a directory, or ends in a slash, is
  \<^verbatim>\<open>EISDIR\<close>.
\<close>

definition open_wb_write :: "string list \<Rightarrow> filesystem \<Rightarrow> string \<Rightarrow> string \<Rightarrow> error + filesystem" where
  "open_wb_write wd f p bytes =
     (case path_target wd f p of
        Inl e \<Rightarrow> Inl e
      | Inr (Directory d) \<Rightarrow> Inl IsADirectoryError
      | Inr (Entry q) \<Rightarrow>
          if ends_with_slash p \<or> f q = Some Dir then Inl IsADirectoryError
          else Inr (f(q \<mapsto> File bytes)))"

subsection \<open>The state the program changes\<close>

text \<open>
  The working directory of the process (which the program never changes), the local
  filesystem, the lines printed so far, and the HTTP requests sent so far (the observable
  trace of network calls).
\<close>

record world =
  cwd :: "string list"
  disk :: filesystem
  stdout :: "string list"
  sent :: "request list"

text \<open>A call either returns a value or raises; in both cases the world is the one it left.\<close>

type_synonym 'a result = "(error + 'a) \<times> world"

definition requests_get :: "remote \<Rightarrow> string \<Rightarrow> (string \<times> string) list \<Rightarrow> world \<Rightarrow> response result" where
  "requests_get rem u hs w =
     (let rq = \<lparr>req_method = ''GET'', req_url = u, req_headers = hs, req_data = []\<rparr>
      in (rem rq, w\<lparr>sent := sent w @ [rq]\<rparr>))"

definition requests_post ::
  "remote \<Rightarrow> string \<Rightarrow> (string \<times> string) list \<Rightarrow> (string \<times> string) list \<Rightarrow> world \<Rightarrow> response result" where
  "requests_post rem u hs body w =
     (let rq = \<lparr>req_method = ''POST'', req_url = u, req_headers = hs, req_data = body\<rparr>
      in (rem rq, w\<lparr>sent := sent w @ [rq]\<rparr>))"

section \<open>The client\<close>

text \<open>
  The attributes of \<^verbatim>\<open>SharePointClient\<close>. The token is whatever the identity provider's
  response held under \<^verbatim>\<open>access_token\<close>, \<^verbatim>\<open>None\<close> included.
\<close>

record SharePointClient =
  tenant_id :: string
  client_id :: string
  client_secret :: string
  resource_url :: string
  base_url :: string
  headers :: "(string \<times> string) list"
  access_token :: json

text \<open>The module-level variable \<^verbatim>\<open>resource\<close> of the script, which one method reads.\<close>

definition resource :: string where
  "resource = ''https://graph.microsoft.com/''"

text \<open>The header \<^verbatim>\<open>{'Authorization': f'Bearer {self.access_token}'}\<close>.\<close>

definition authorization :: "SharePointClient \<Rightarrow> (string \<times> string) list" where
  "authorization self = [(''Authorization'', ''Bearer '' @ py_str (access_token self))]"

subsection \<open>Token and site\<close>

definition get_access_token :: "remote \<Rightarrow> SharePointClient \<Rightarrow> world \<Rightarrow> json result" where
  "get_access_token rem self w =
     (let body = [(''grant_type'', ''client_credentials''),
                  (''client_id'', client_id self),
                  (''client_secret'', client_secret self),
                  (''scope'', resource_url self @ ''.default'')];
          (r, w1) = requests_post rem (base_url self) (headers self) body w
      in case r of
           Inl e \<Rightarrow> (Inl e, w1)
         | Inr resp \<Rightarrow>
           (case json_of resp of
              Inl e \<Rightarrow> (Inl e, w1)
            | Inr j \<Rightarrow> (py_get j ''access_token'', w1)))"

text \<open>\<^verbatim>\<open>__init__\<close>: the attributes are set, then the token is fetched and stored.\<close>

definition new_client :: "string \<Rightarrow> string \<Rightarrow> string \<Rightarrow> string \<Rightarrow> SharePointClient" where
  "new_client tenant client secret res =
     \<lparr>tenant_id = tenant, client_id = client, client_secret = secret,
      resource_url = res,
      base_url = ''https://login.microsoftonline.com/'' @ tenant @ ''/oauth2/v2.0/token'',
      headers = [(''Content-Type'', ''application/x-www-form-urlencoded'')],
      access_token = JNull\<rparr>"

definition init ::
  "remote \<Rightarrow> string \<Rightarrow> string \<Rightarrow> string \<Rightarrow> string \<Rightarrow> world \<Rightarrow> SharePointClient result" where
  "init rem tenant client secret res w =
     (let self = new_client tenant client secret res
      in case get_access_token rem self w of
           (Inl e, w1) \<Rightarrow> (Inl e, w1)
         | (Inr tok, w1) \<Rightarrow> (Inr (self\<lparr>access_token := tok\<rparr>), w1))"

definition get_site_id :: "remote \<Rightarrow> SharePointClient \<Rightarrow> json \<Rightarrow> world \<Rightarrow> json result" where
  "get_site_id rem self site_url w =
     (let full_url = ''https://graph.microsoft.com/v1.0/sites/'' @ py_str site_url;
          (r, w1) = requests_get rem full_url (authorization self) w
      in case r of
           Inl e \<Rightarrow> (Inl e, w1)
         | Inr resp \<Rightarrow>
           (case json_of resp of
              Inl e \<Rightarrow> (Inl e, w1)
            | Inr j \<Rightarrow> (py_get j ''id'', w1)))"

subsection \<open>Listing the drive root\<close>

text \<open>
  \<^verbatim>\<open>if 'value' in d: for item in d['value']\<close>: the items
  the loop will run over; no items when the key is absent.
\<close>

definition value_items :: "json \<Rightarrow> error + json list" where
  "value_items folder_contents =
     (case py_in ''value'' folder_contents of
        Inl e \<Rightarrow> Inl e
      | Inr False \<Rightarrow> Inr []
      | Inr True \<Rightarrow>
        (case py_getitem folder_contents ''value'' of
           Inl e \<Rightarrow> Inl e
         | Inr v \<Rightarrow> py_iter v))"

text \<open>
  The loop of \<^verbatim>\<open>get_folder_content\<close> appends one pair per item; the pair is a Python
  tuple, here a two-element \<open>JArr\<close>.
\<close>

fun get_folder_content_loop :: "json list \<Rightarrow> json list \<Rightarrow> error + json list" where
  "get_folder_content_loop [] rootdir = Inr rootdir"
| "get_folder_content_loop (item # rest) rootdir =
     (case py_getitem item ''id'' of
        Inl e \<Rightarrow> Inl e
      | Inr i \<Rightarrow>
        (case py_getitem item ''name'' of
           Inl e \<Rightarrow> Inl e
         | Inr nm \<Rightarrow> get_folder_content_loop rest (rootdir @ [JArr [i, nm]])))"

definition get_folder_content ::
  "remote \<Rightarrow> SharePointClient \<Rightarrow> json \<Rightarrow> json \<Rightarrow> 'p \<Rightarrow> world \<Rightarrow> (json list) result" where
  "get_folder_content rem self site_id drive_id folder_path w =
     (let folder_url = ''https://graph.microsoft.com/v1.0/sites/'' @ py_str site_id
                       @ ''/drives/'' @ py_str drive_id @ ''/root/children'';
          (r, w1) = requests_get rem folder_url (authorization self) w
      in case r of
           Inl e \<Rightarrow> (Inl e, w1)
         | Inr resp \<Rightarrow>
           (case json_of resp of
              Inl e \<Rightarrow> (Inl e, w1)
            | Inr items_data \<Rightarrow>
              (case value_items items_data of
                 Inl e \<Rightarrow> (Inl e, w1)
               | Inr items \<Rightarrow> (get_folder_content_loop items [], w1))))"

subsection \<open>The recursive walk\<close>

text \<open>
  Both recursive methods start by fetching and decoding the children of a folder
  (lines 52 to 55 and 85 to 88 are the same four statements).
\<close>

definition children_url :: "json \<Rightarrow> json \<Rightarrow> json \<Rightarrow> string" where
  "children_url site_id drive_id folder_id =
     ''https://graph.microsoft.com/v1.0/sites/'' @ py_str site_id @ ''/drives/'' @ py_str drive_id
       @ ''/items/'' @ py_str folder_id @ ''/children''"

definition fetch_children ::
  "remote \<Rightarrow> SharePointClient \<Rightarrow> json \<Rightarrow> json \<Rightarrow> json \<Rightarrow> world \<Rightarrow> json result" where
  "fetch_children rem self site_id drive_id folder_id w =
     (let (r, w1) = requests_get rem (children_url site_id drive_id folder_id) (authorization self) w
      in case r of
           Inl e \<Rightarrow> (Inl e, w1)
         | Inr resp \<Rightarrow> (json_of resp, w1))"

definition folder_entry :: "json \<Rightarrow> json" where
  "folder_entry nm = JObj [(''name'', nm), (''type'', JStr ''Folder''), (''mimeType'', JNull)]"

definition file_entry :: "json \<Rightarrow> json \<Rightarrow> json" where
  "file_entry nm mt = JObj [(''name'', nm), (''type'', JStr ''File''), (''mimeType'', mt)]"

text \<open>
  \<^verbatim>\<open>list_folder_contents\<close> calls itself for every subfolder, with nothing that bounds the
  depth. The first argument counts the nested calls that are still allowed; \<open>None\<close> means
  that the call did not come back within them.
\<close>

fun list_folder_contents ::
  "nat \<Rightarrow> remote \<Rightarrow> SharePointClient \<Rightarrow> json \<Rightarrow> json \<Rightarrow> json \<Rightarrow> int \<Rightarrow> world \<Rightarrow> (json list) result option"
and list_folder_contents_loop ::
  "nat \<Rightarrow> remote \<Rightarrow> SharePointClient \<Rightarrow> json \<Rightarrow> json \<Rightarrow> json list \<Rightarrow> int \<Rightarrow> json list \<Rightarrow> world
     \<Rightarrow> (json list) result option"
where
  "list_folder_contents 0 rem self site_id drive_id folder_id level w = None"
| "list_folder_contents (Suc n) rem self site_id drive_id folder_id level w =
     (case fetch_children rem self site_id drive_id folder_id w of
        (Inl e, w1) \<Rightarrow> Some (Inl e, w1)
      | (Inr folder_contents, w1) \<Rightarrow>
        (case value_items folder_contents of
           Inl e \<Rightarrow> Some (Inl e, w1)
         | Inr items \<Rightarrow> list_folder_contents_loop n rem self site_id drive_id items level [] w1))"
| "list_folder_contents_loop n rem self site_id drive_id [] level items_list w = Some (Inr items_list, w)"
| "list_folder_contents_loop n rem self site_id drive_id (item # rest) level items_list w =
     (case py_in ''folder'' item of
        Inl e \<Rightarrow> Some (Inl e, w)
      | Inr True \<Rightarrow>
        (case py_getitem item ''name'' of
           Inl e \<Rightarrow> Some (Inl e, w)
         | Inr nm \<Rightarrow>
           (case py_getitem item ''id'' of
              Inl e \<Rightarrow> Some (Inl e, w)
            | Inr i \<Rightarrow>
              (case list_folder_contents n rem self site_id drive_id i (level + 1) w of
                 None \<Rightarrow> None
               | Some (Inl e, w1) \<Rightarrow> Some (Inl e, w1)
               | Some (Inr sub, w1) \<Rightarrow>
                   list_folder_contents_loop n rem self site_id drive_id rest level
                     (items_list @ [folder_entry nm] @ sub) w1)))
      | Inr False \<Rightarrow>
        (case py_in ''file'' item of
           Inl e \<Rightarrow> Some (Inl e, w)
         | Inr True \<Rightarrow>
           (case py_getitem item ''name'' of
              Inl e \<Rightarrow> Some (Inl e, w)
            | Inr nm \<Rightarrow>
              (case py_getitem item ''file'' of
                 Inl e \<Rightarrow> Some (Inl e, w)
               | Inr f \<Rightarrow>
                 (case py_getitem f ''mimeType'' of
                    Inl e \<Rightarrow> Some (Inl e, w)
                  | Inr mt \<Rightarrow>
                      list_folder_contents_loop n rem self site_id drive_id rest level
                        (items_list @ [file_entry nm mt]) w)))
         | Inr False \<Rightarrow>
             list_folder_contents_loop n rem self site_id drive_id rest level items_list w))"

subsection \<open>Downloading\<close>

definition download_file ::
  "remote \<Rightarrow> SharePointClient \<Rightarrow> string \<Rightarrow> string \<Rightarrow> json \<Rightarrow> world \<Rightarrow> unit result" where
  "download_file rem self download_url local_path file_name w =
     (let (r, w1) = requests_get rem download_url (authorization self) w
      in case r of
           Inl e \<Rightarrow> (Inl e, w1)
         | Inr resp \<Rightarrow>
           if status_code resp = 200 then
             (case os_path_join local_path file_name of
                Inl e \<Rightarrow> (Inl e, w1)
              | Inr full_path \<Rightarrow>
                (case open_wb_write (cwd w1) (disk w1) full_path (content resp) of
                   Inl e \<Rightarrow> (Inl e, w1)
                 | Inr d \<Rightarrow>
                     (Inr (), w1\<lparr>disk := d,
                                 stdout := stdout w1 @ [''File downloaded: '' @ full_path]\<rparr>)))
           else
             (Inr (), w1\<lparr>stdout := stdout w1 @
                [''Failed to download '' @ py_str file_name @ '': '' @ str_int (status_code resp)
                   @ '' - '' @ reason resp]\<rparr>))"

text \<open>
  The address that \<^verbatim>\<open>download_folder_contents\<close> builds for a file (line 99): it starts
  with the module-level \<^verbatim>\<open>resource\<close>.
\<close>

definition file_download_url :: "json \<Rightarrow> json \<Rightarrow> json \<Rightarrow> string" where
  "file_download_url site_id drive_id item_id =
     resource @ ''/v1.0/sites/'' @ py_str site_id @ ''/drives/'' @ py_str drive_id
       @ ''/items/'' @ py_str item_id @ ''/content''"

text \<open>
  \<^verbatim>\<open>if not os.path.exists(new_path): os.makedirs(new_path)\<close>
\<close>

definition ensure_dir :: "string \<Rightarrow> world \<Rightarrow> unit result" where
  "ensure_dir new_path w =
     (if \<not> os_path_exists (cwd w) (disk w) new_path then
        (case os_makedirs (cwd w) (disk w) new_path of
           (r, d) \<Rightarrow> (r, w\<lparr>disk := d\<rparr>))
      else (Inr (), w))"

fun download_folder_contents ::
  "nat \<Rightarrow> remote \<Rightarrow> SharePointClient \<Rightarrow> json \<Rightarrow> json \<Rightarrow> json \<Rightarrow> string \<Rightarrow> int \<Rightarrow> world \<Rightarrow> unit result option"
and download_folder_contents_loop ::
  "nat \<Rightarrow> remote \<Rightarrow> SharePointClient \<Rightarrow> json \<Rightarrow> json \<Rightarrow> json list \<Rightarrow> string \<Rightarrow> int \<Rightarrow> world
     \<Rightarrow> unit result option"
where
  "download_folder_contents 0 rem self site_id drive_id folder_id local_folder_path level w = None"
| "download_folder_contents (Suc n) rem self site_id drive_id folder_id local_folder_path level w =
     (case fetch_children rem self site_id drive_id folder_id w of
        (Inl e, w1) \<Rightarrow> Some (Inl e, w1)
      | (Inr folder_contents, w1) \<Rightarrow>
        (case value_items folder_contents of
           Inl e \<Rightarrow> Some (Inl e, w1)
         | Inr items \<Rightarrow>
             download_folder_contents_loop n rem self site_id drive_id items local_folder_path level w1))"
| "download_folder_contents_loop n rem self site_id drive_id [] local_folder_path level w = Some (Inr (), w)"
| "download_folder_contents_loop n rem self site_id drive_id (item # rest) local_folder_path level w =
     (case py_in ''folder'' item of
        Inl e \<Rightarrow> Some (Inl e, w)
      | Inr True \<Rightarrow>
        (case py_getitem item ''name'' of
           Inl e \<Rightarrow> Some (Inl e, w)
         | Inr nm \<Rightarrow>
           (case os_path_join local_folder_path nm of
              Inl e \<Rightarrow> Some (Inl e, w)
            | Inr new_path \<Rightarrow>
              (case ensure_dir new_path w of
                 (Inl e, w1) \<Rightarrow> Some (Inl e, w1)
               | (Inr u, w1) \<Rightarrow>
                 (case py_getitem item ''id'' of
                    Inl e \<Rightarrow> Some (Inl e, w1)
                  | Inr i \<Rightarrow>
                    (case download_folder_contents n rem self site_id drive_id i new_path (level + 1) w1 of
                       None \<Rightarrow> None
                     | Some (Inl e, w2) \<Rightarrow> Some (Inl e, w2)
                     | Some (Inr u2, w2) \<Rightarrow>
                         download_folder_contents_loop n rem self site_id drive_id rest
                           local_folder_path level w2)))))
      | Inr False \<Rightarrow>
        (case py_in ''file'' item of
           Inl e \<Rightarrow> Some (Inl e, w)
         | Inr True \<Rightarrow>
           (case py_getitem item ''name'' of
              Inl e \<Rightarrow> Some (Inl e, w)
            | Inr file_name \<Rightarrow>
              (case py_getitem item ''id'' of
                 Inl e \<Rightarrow> Some (Inl e, w)
               | Inr i \<Rightarrow>
                 (case download_file rem self (file_download_url site_id drive_id i)
                         local_folder_path file_name w of
                    (Inl e, w1) \<Rightarrow> Some (Inl e, w1)
                  | (Inr u, w1) \<Rightarrow>
                      download_folder_contents_loop n rem self site_id drive_id rest
                        local_folder_path level w1)))
         | Inr False \<Rightarrow>
             download_folder_contents_loop n rem self site_id drive_id rest local_folder_path level w))"

section \<open>Remote trees\<close>

text \<open>
  A finite remote tree: a file has an identifier, a name and a content type; a folder has
  an identifier, a name and its children in the order in which the service lists them.
\<close>

datatype rtree =
    RFile string string json
  | RFolder string string "rtree list"

text \<open>
  An item of a children listing stands for a node of the tree: a folder item carries the
  \<^verbatim>\<open>folder\<close> marker, a file item carries the \<^verbatim>\<open>file\<close> marker (with \<^verbatim>\<open>mimeType\<close> inside) and
  no \<^verbatim>\<open>folder\<close> marker; both carry \<^verbatim>\<open>name\<close> and \<^verbatim>\<open>id\<close> as strings.
\<close>

fun represents :: "json \<Rightarrow> rtree \<Rightarrow> bool" where
  "represents item (RFolder i nm cs) =
     (py_in ''folder'' item = Inr True
      \<and> py_getitem item ''name'' = Inr (JStr nm)
      \<and> py_getitem item ''id'' = Inr (JStr i))"
| "represents item (RFile i nm mt) =
     (py_in ''folder'' item = Inr False
      \<and> py_in ''file'' item = Inr True
      \<and> py_getitem item ''name'' = Inr (JStr nm)
      \<and> py_getitem item ''id'' = Inr (JStr i)
      \<and> (case py_getitem item ''file'' of
            Inl e \<Rightarrow> False
          | Inr f \<Rightarrow> py_getitem f ''mimeType'' = Inr mt))"

text \<open>The requests as they go out: a \<^verbatim>\<open>GET\<close> with the client's authorization header.\<close>

definition authorized_get :: "SharePointClient \<Rightarrow> string \<Rightarrow> request" where
  "authorized_get self u =
     \<lparr>req_method = ''GET'', req_url = u, req_headers = authorization self, req_data = []\<rparr>"

definition children_request :: "SharePointClient \<Rightarrow> json \<Rightarrow> json \<Rightarrow> json \<Rightarrow> request" where
  "children_request self site_id drive_id folder_id =
     authorized_get self (children_url site_id drive_id folder_id)"

text \<open>The request that \<^verbatim>\<open>get_access_token\<close> posts to the identity provider.\<close>

definition token_request :: "SharePointClient \<Rightarrow> request" where
  "token_request self =
     \<lparr>req_method = ''POST'', req_url = base_url self, req_headers = headers self,
      req_data = [(''grant_type'', ''client_credentials''),
                  (''client_id'', client_id self),
                  (''client_secret'', client_secret self),
                  (''scope'', resource_url self @ ''.default'')]\<rparr>"

text \<open>The line that \<^verbatim>\<open>download_file\<close> prints for a response that is not a 200.\<close>

definition failure_line :: "json \<Rightarrow> response \<Rightarrow> string" where
  "failure_line file_name resp =
     ''Failed to download '' @ py_str file_name @ '': '' @ str_int (status_code resp)
       @ '' - '' @ reason resp"

text \<open>
  The remote side serves the tree below a folder: the children request of the folder is
  answered with a body that decodes to a listing of the folder's children, item by item
  in order, and the same holds for every subfolder.
\<close>

fun serves :: "remote \<Rightarrow> SharePointClient \<Rightarrow> json \<Rightarrow> json \<Rightarrow> json \<Rightarrow> rtree list \<Rightarrow> bool"
and serves_nodes :: "remote \<Rightarrow> SharePointClient \<Rightarrow> json \<Rightarrow> json \<Rightarrow> rtree list \<Rightarrow> bool"
where
  "serves rem self site_id drive_id folder_id ts =
     (case rem (children_request self site_id drive_id folder_id) of
        Inl e \<Rightarrow> False
      | Inr resp \<Rightarrow>
        (case body_json resp of
           None \<Rightarrow> False
         | Some folder_contents \<Rightarrow>
           (case value_items folder_contents of
              Inl e \<Rightarrow> False
            | Inr items \<Rightarrow>
                list_all2 represents items ts \<and> serves_nodes rem self site_id drive_id ts)))"
| "serves_nodes rem self site_id drive_id [] = True"
| "serves_nodes rem self site_id drive_id (RFile i nm mt # ts) =
     serves_nodes rem self site_id drive_id ts"
| "serves_nodes rem self site_id drive_id (RFolder i nm cs # ts) =
     (serves rem self site_id drive_id (JStr i) cs \<and> serves_nodes rem self site_id drive_id ts)"

text \<open>The numbers of folders and of files, and the nesting depth of the folders.\<close>

fun count_folders :: "rtree list \<Rightarrow> nat" where
  "count_folders [] = 0"
| "count_folders (RFile i nm mt # ts) = count_folders ts"
| "count_folders (RFolder i nm cs # ts) = Suc (count_folders cs + count_folders ts)"

fun count_files :: "rtree list \<Rightarrow> nat" where
  "count_files [] = 0"
| "count_files (RFile i nm mt # ts) = Suc (count_files ts)"
| "count_files (RFolder i nm cs # ts) = count_files cs + count_files ts"

fun height :: "rtree list \<Rightarrow> nat" where
  "height [] = 0"
| "height (RFile i nm mt # ts) = height ts"
| "height (RFolder i nm cs # ts) = max (Suc (height cs)) (height ts)"

text \<open>
  The pre-order listing of a forest, in the words of the specification: a file gives its
  File entry; a folder gives its Folder entry, then the listing of its children; the
  siblings follow in their order.
\<close>

fun preorder :: "rtree list \<Rightarrow> json list" where
  "preorder [] = []"
| "preorder (RFile i nm mt # ts) = file_entry (JStr nm) mt # preorder ts"
| "preorder (RFolder i nm cs # ts) = folder_entry (JStr nm) # preorder cs @ preorder ts"

text \<open>A local disk on which nothing is a file (so no file can stand where a directory is wanted).\<close>

definition no_files :: "filesystem \<Rightarrow> bool" where
  "no_files f = (\<forall>q b. f q \<noteq> Some (File b))"

section \<open>The local picture of a remote tree\<close>

text \<open>
  What the specification expects on the local disk after a download, read off the tree.
  A name is \<^emph>\<open>plain\<close> when it is a single path component: not empty, without a slash or a
  NUL character, and neither \<^verbatim>\<open>.\<close> nor \<^verbatim>\<open>..\<close>. For a plain name \<^verbatim>\<open>os.path.join\<close> gives
  \<open>joined\<close>.
\<close>

definition plain_name :: "string \<Rightarrow> bool" where
  "plain_name nm =
     (nm \<noteq> [] \<and> CHR ''/'' \<notin> set nm \<and> CHR 0x00 \<notin> set nm \<and> nm \<noteq> ''.'' \<and> nm \<noteq> ''..'')"

definition joined :: "string \<Rightarrow> string \<Rightarrow> string" where
  "joined p nm = (if p = [] \<or> last p = CHR ''/'' then p @ nm else p @ ''/'' @ nm)"

text \<open>The request for the content of a file, as \<^verbatim>\<open>download_folder_contents\<close> sends it.\<close>

definition content_request :: "SharePointClient \<Rightarrow> json \<Rightarrow> json \<Rightarrow> string \<Rightarrow> request" where
  "content_request self site_id drive_id i =
     authorized_get self (file_download_url site_id drive_id (JStr i))"

fun node_name :: "rtree \<Rightarrow> string" where
  "node_name (RFile i nm mt) = nm"
| "node_name (RFolder i nm cs) = nm"

text \<open>
  The names in a well-formed tree are plain and differ between siblings (the service keeps
  them so).
\<close>

fun wf_names :: "rtree list \<Rightarrow> bool" where
  "wf_names [] = True"
| "wf_names (RFile i nm mt # ts) =
     (plain_name nm \<and> nm \<notin> set (map node_name ts) \<and> wf_names ts)"
| "wf_names (RFolder i nm cs # ts) =
     (plain_name nm \<and> nm \<notin> set (map node_name ts) \<and> wf_names cs \<and> wf_names ts)"

text \<open>Every content request of the tree gets a response (with whatever status).\<close>

fun answered :: "remote \<Rightarrow> SharePointClient \<Rightarrow> json \<Rightarrow> json \<Rightarrow> rtree list \<Rightarrow> bool" where
  "answered rem self site_id drive_id [] = True"
| "answered rem self site_id drive_id (RFile i nm mt # ts) =
     (\<not> isl (rem (content_request self site_id drive_id i)) \<and> answered rem self site_id drive_id ts)"
| "answered rem self site_id drive_id (RFolder i nm cs # ts) =
     (answered rem self site_id drive_id cs \<and> answered rem self site_id drive_id ts)"

text \<open>
  The directory that a path leads to when every component of it is a directory: the
  place in which the names joined to the path are looked up. The empty path leads to the
  working directory, as it does for \<^verbatim>\<open>os.path.join\<close>. The local folder is ready for a
  download when it leads to a directory and nothing is below that directory.
\<close>

definition directory_at :: "string list \<Rightarrow> filesystem \<Rightarrow> string \<Rightarrow> error + string list" where
  "directory_at wd f p =
     (if CHR 0x00 \<in> set p then Inl ValueError else walk f (start_dir wd p) (components p))"

definition nothing_below :: "filesystem \<Rightarrow> string list \<Rightarrow> bool" where
  "nothing_below f rq = (\<forall>q. q \<noteq> [] \<longrightarrow> f (rq @ q) = None)"

text \<open>
  The folders of the tree, each by its path of names from the top; the files whose
  content came with status 200, by path and with their bytes; the files whose content came
  with another status, by path and with the line that reports them.
\<close>

fun folder_paths :: "rtree list \<Rightarrow> string list list" where
  "folder_paths [] = []"
| "folder_paths (RFile i nm mt # ts) = folder_paths ts"
| "folder_paths (RFolder i nm cs # ts) = [nm] # map ((#) nm) (folder_paths cs) @ folder_paths ts"

fun fetched :: "remote \<Rightarrow> SharePointClient \<Rightarrow> json \<Rightarrow> json \<Rightarrow> rtree list \<Rightarrow> (string list \<times> string) list" where
  "fetched rem self site_id drive_id [] = []"
| "fetched rem self site_id drive_id (RFile i nm mt # ts) =
     (case rem (content_request self site_id drive_id i) of
        Inl e \<Rightarrow> []
      | Inr resp \<Rightarrow> if status_code resp = 200 then [([nm], content resp)] else [])
     @ fetched rem self site_id drive_id ts"
| "fetched rem self site_id drive_id (RFolder i nm cs # ts) =
     map (\<lambda>qb. (nm # fst qb, snd qb)) (fetched rem self site_id drive_id cs)
     @ fetched rem self site_id drive_id ts"

fun skipped :: "remote \<Rightarrow> SharePointClient \<Rightarrow> json \<Rightarrow> json \<Rightarrow> rtree list \<Rightarrow> (string list \<times> string) list" where
  "skipped rem self site_id drive_id [] = []"
| "skipped rem self site_id drive_id (RFile i nm mt # ts) =
     (case rem (content_request self site_id drive_id i) of
        Inl e \<Rightarrow> []
      | Inr resp \<Rightarrow> if status_code resp = 200 then [] else [([nm], failure_line (JStr nm) resp)])
     @ skipped rem self site_id drive_id ts"
| "skipped rem self site_id drive_id (RFolder i nm cs # ts) =
     map (\<lambda>ql. (nm # fst ql, snd ql)) (skipped rem self site_id drive_id cs)
     @ skipped rem self site_id drive_id ts"

text \<open>
  The same picture as a function from paths to nodes, the lines that a download prints,
  and the way a download changes a disk: below the local folder it puts the picture on
  top of what was there, elsewhere it changes nothing.
\<close>

fun local_image :: "remote \<Rightarrow> SharePointClient \<Rightarrow> json \<Rightarrow> json \<Rightarrow> rtree list \<Rightarrow> string list \<Rightarrow> node option" where
  "local_image rem self site_id drive_id [] q = None"
| "local_image rem self site_id drive_id (RFile i nm mt # ts) q =
     (if q = [nm] then
        (case rem (content_request self site_id drive_id i) of
           Inl e \<Rightarrow> None
         | Inr resp \<Rightarrow> if status_code resp = 200 then Some (File (content resp)) else None)
      else local_image rem self site_id drive_id ts q)"
| "local_image rem self site_id drive_id (RFolder i nm cs # ts) q =
     (case q of
        [] \<Rightarrow> None
      | c # q' \<Rightarrow>
          if c = nm then (if q' = [] then Some Dir else local_image rem self site_id drive_id cs q')
          else local_image rem self site_id drive_id ts q)"

fun printed :: "remote \<Rightarrow> SharePointClient \<Rightarrow> json \<Rightarrow> json \<Rightarrow> string \<Rightarrow> rtree list \<Rightarrow> string list" where
  "printed rem self site_id drive_id p [] = []"
| "printed rem self site_id drive_id p (RFile i nm mt # ts) =
     (case rem (content_request self site_id drive_id i) of
        Inl e \<Rightarrow> []
      | Inr resp \<Rightarrow>
          [if status_code resp = 200 then ''File downloaded: '' @ joined p nm
           else failure_line (JStr nm) resp])
     @ printed rem self site_id drive_id p ts"
| "printed rem self site_id drive_id p (RFolder i nm cs # ts) =
     printed rem self site_id drive_id (joined p nm) cs @ printed rem self site_id drive_id p ts"

definition mirrors ::
  "string list \<Rightarrow> (string list \<Rightarrow> node option) \<Rightarrow> filesystem \<Rightarrow> filesystem \<Rightarrow> bool" where
  "mirrors rq img f f' =
     ((\<forall>q. f' (rq @ q) = (case img q of None \<Rightarrow> f (rq @ q) | Some nd \<Rightarrow> Some nd))
      \<and> (\<forall>q'. \<not> prefix rq q' \<longrightarrow> f' q' = f q'))"

section \<open>Running the download again\<close>

text \<open>
  Notions for comparing two runs of the download. A disk \<open>F\<close> \<^emph>\<open>grows\<close> out of a disk \<open>S\<close>
  when every directory of \<open>S\<close> is a directory of \<open>F\<close> and every file of \<open>S\<close> is a file of
  \<open>F\<close> (its bytes may differ); \<open>f'\<close> \<^emph>\<open>adds directories\<close> to \<open>f\<close> when it differs from \<open>f\<close> only
  by directories at places that were free; two disks have the \<^emph>\<open>same shape\<close> when they have
  directories at the same places and files at the same places. While a second run,
  started on the final disk \<open>F\<close> of a first run, replays the first run, its disk \<open>G\<close>
  \<^emph>\<open>catches up\<close> with the disk \<open>S\<close> of the first run: every place holds in \<open>G\<close> what it holds
  in \<open>F\<close>, or it is a file that the replay has written already, with the bytes it had in
  \<open>S\<close>. A computation is \<^emph>\<open>repeatable\<close> when a run of it that returns normally only lets the
  disk grow, and a replay of such a run, on a disk that catches up, returns normally too
  and still catches up.
\<close>

definition grows :: "filesystem \<Rightarrow> filesystem \<Rightarrow> bool" where
  "grows S F = (\<forall>q. (S q = Some Dir \<longrightarrow> F q = Some Dir)
                   \<and> (\<forall>b. S q = Some (File b) \<longrightarrow> (\<exists>b'. F q = Some (File b'))))"

definition adds_dirs :: "filesystem \<Rightarrow> filesystem \<Rightarrow> bool" where
  "adds_dirs f f' = (\<forall>q. f' q = f q \<or> (f q = None \<and> f' q = Some Dir))"

definition same_shape :: "filesystem \<Rightarrow> filesystem \<Rightarrow> bool" where
  "same_shape G F = (\<forall>q. (G q = None \<longleftrightarrow> F q = None) \<and> (G q = Some Dir \<longleftrightarrow> F q = Some Dir))"

definition catches_up :: "filesystem \<Rightarrow> filesystem \<Rightarrow> filesystem \<Rightarrow> bool" where
  "catches_up S G F = (\<forall>q. G q = F q \<or> (G q = S q \<and> (\<exists>b. S q = Some (File b))))"

definition repeatable :: "(world \<Rightarrow> unit result option) \<Rightarrow> bool" where
  "repeatable c =
     ((\<forall>w w'. c w = Some (Inr (), w') \<longrightarrow> grows (disk w) (disk w') \<and> cwd w' = cwd w)
      \<and> (\<forall>w g F w'. c w = Some (Inr (), w') \<and> cwd g = cwd w \<and> catches_up (disk w) (disk g) F
             \<and> grows (disk w') F
           \<longrightarrow> (\<exists>g'. c g = Some (Inr (), g') \<and> cwd g' = cwd g \<and> catches_up (disk w') (disk g') F)))"

text \<open>The folder names of a tree are plain (the names of its files may be anything).\<close>

fun plain_folders :: "rtree list \<Rightarrow> bool" where
  "plain_folders [] = True"
| "plain_folders (RFile i nm mt # ts) = plain_folders ts"
| "plain_folders (RFolder i nm cs # ts) = (plain_name nm \<and> plain_folders cs \<and> plain_folders ts)"

section \<open>A concrete remote side\<close>

text \<open>
  The example of the specification: the folder \<^verbatim>\<open>root\<close> holds the folder \<^verbatim>\<open>Reports\<close> (with the
  file \<^verbatim>\<open>q1.pdf\<close> inside) and then the file \<^verbatim>\<open>readme.txt\<close>.
\<close>

definition example_client :: SharePointClient where
  "example_client =
     (new_client ''t'' ''c'' ''s'' ''https://graph.microsoft.com/'')\<lparr>access_token := JStr ''tok''\<rparr>"

definition json_response :: "json \<Rightarrow> response" where
  "json_response j = \<lparr>status_code = 200, reason = ''OK'', content = [], body_json = Some j\<rparr>"

definition not_found :: response where
  "not_found =
     \<lparr>status_code = 404, reason = ''Not Found'', content = [],
      body_json = Some (JObj [(''error'', JObj [(''code'', JStr ''itemNotFound'')])])\<rparr>"

definition example_remote :: remote where
  "example_remote rq =
     (if req_url rq = children_url (JStr ''s1'') (JStr ''d1'') (JStr ''root'') then
        Inr (json_response (JObj [(''value'', JArr [
          JObj [(''id'', JStr ''a''), (''name'', JStr ''Reports''), (''folder'', JObj [(''childCount'', JNum 1)])],
          JObj [(''id'', JStr ''b''), (''name'', JStr ''readme.txt''), (''file'', JObj [(''mimeType'', JStr ''text/plain'')])]])]))
      else if req_url rq = children_url (JStr ''s1'') (JStr ''d1'') (JStr ''a'') then
        Inr (json_response (JObj [(''value'', JArr [
          JObj [(''id'', JStr ''q''), (''name'', JStr ''q1.pdf''), (''file'', JObj [(''mimeType'', JStr ''application/pdf'')])]])]))
      else if req_url rq = file_download_url (JStr ''s1'') (JStr ''d1'') (JStr ''q'') then
        Inr \<lparr>status_code = 200, reason = ''OK'', content = ''%PDF-1.7'', body_json = None\<rparr>
      else if req_url rq = file_download_url (JStr ''s1'') (JStr ''d1'') (JStr ''b'') then
        Inr \<lparr>status_code = 200, reason = ''OK'', content = ''read me'', body_json = None\<rparr>
      else Inr not_found)"

definition example_tree :: "rtree list" where
  "example_tree =
     [RFolder ''a'' ''Reports'' [RFile ''q'' ''q1.pdf'' (JStr ''application/pdf'')],
      RFile ''b'' ''readme.txt'' (JStr ''text/plain'')]"

text \<open>
  The worlds of the examples: the process runs in the root directory, so that the local
  path \<^verbatim>\<open>data\<close> is the place \<open>[''data'']\<close>. In the first one the disk is empty.
\<close>

definition empty_world :: world where
  "empty_world = \<lparr>cwd = [], disk = Map.empty, stdout = [], sent = []\<rparr>"

text \<open>A remote side that knows nothing: every request is answered with the error body.\<close>

definition notfound_remote :: remote where
  "notfound_remote rq = Inr not_found"

definition plain_item :: json where
  "plain_item = JObj [(''id'', JStr ''x''), (''name'', JStr ''note'')]"

text \<open>A folder with two files; the content of the first one cannot be fetched.\<close>

definition lost_item :: json where
  "lost_item = JObj [(''id'', JStr ''l''), (''name'', JStr ''lost.txt''),
                     (''file'', JObj [(''mimeType'', JStr ''text/plain'')])]"

definition kept_item :: json where
  "kept_item = JObj [(''id'', JStr ''k''), (''name'', JStr ''kept.txt''),
                     (''file'', JObj [(''mimeType'', JStr ''text/plain'')])]"

definition flaky_remote :: remote where
  "flaky_remote rq =
     (if req_url rq = children_url (JStr ''s1'') (JStr ''d1'') (JStr ''root'') then
        Inr (json_response (JObj [(''value'', JArr [lost_item, kept_item])]))
      else if req_url rq = file_download_url (JStr ''s1'') (JStr ''d1'') (JStr ''k'') then
        Inr \<lparr>status_code = 200, reason = ''OK'', content = ''kept'', body_json = None\<rparr>
      else Inr not_found)"

text \<open>A local disk that has the directory \<^verbatim>\<open>data\<close> and nothing else.\<close>

definition data_world :: world where
  "data_world = \<lparr>cwd = [], disk = [[''data''] \<mapsto> Dir], stdout = [], sent = []\<rparr>"

text \<open>
  A folder whose subfolder \<^verbatim>\<open>Broken\<close> cannot be listed: the answer to its children request
  is not JSON.
\<close>

definition broken_item :: json where
  "broken_item = JObj [(''id'', JStr ''z''), (''name'', JStr ''Broken''), (''folder'', JObj [])]"

definition server_error :: response where
  "server_error =
     \<lparr>status_code = 500, reason = ''Internal Server Error'', content = ''<html>'', body_json = None\<rparr>"

definition broken_remote :: remote where
  "broken_remote rq =
     (if req_url rq = children_url (JStr ''s1'') (JStr ''d1'') (JStr ''root'') then
        Inr (json_response (JObj [(''value'', JArr [broken_item, kept_item])]))
      else if req_url rq = file_download_url (JStr ''s1'') (JStr ''d1'') (JStr ''k'') then
        Inr \<lparr>status_code = 200, reason = ''OK'', content = ''kept'', body_json = None\<rparr>
      else Inr server_error)"

text \<open>A remote side with a cycle: every folder lists one subfolder, with the same identifier.\<close>

definition cyclic_remote :: remote where
  "cyclic_remote rq =
     Inr (json_response (JObj [(''value'', JArr [
       JObj [(''id'', JStr ''c''), (''name'', JStr ''again''), (''folder'', JObj [])]])]))"

text \<open>An identity provider that rejects the credentials: its answer has no \<^verbatim>\<open>access_token\<close>.\<close>

definition rejection :: response where
  "rejection =
     \<lparr>status_code = 401, reason = ''Unauthorized'', content = [],
      body_json = Some (JObj [(''error'', JStr ''invalid_client'')])\<rparr>"

definition rejecting_remote :: remote where
  "rejecting_remote rq = Inr rejection"

text \<open>The world after the example has been downloaded into \<^verbatim>\<open>data\<close>.\<close>

definition mirrored_world :: world where
  "mirrored_world =
     \<lparr>cwd = [],
      disk = [[''data''] \<mapsto> Dir,
              [''data'', ''Reports''] \<mapsto> Dir,
              [''data'', ''Reports'', ''q1.pdf''] \<mapsto> File ''%PDF-1.7'',
              [''data'', ''readme.txt''] \<mapsto> File ''read me''],
      stdout = [''File downloaded: data/Reports/q1.pdf'', ''File downloaded: data/readme.txt''],
      sent = [children_request example_client (JStr ''s1'') (JStr ''d1'') (JStr ''root''),
              children_request example_client (JStr ''s1'') (JStr ''d1'') (JStr ''a''),
              authorized_get example_client (file_download_url (JStr ''s1'') (JStr ''d1'') (JStr ''q'')),
              authorized_get example_client (file_download_url (JStr ''s1'') (JStr ''d1'') (JStr ''b''))]\<rparr>"

text \<open>The tree that the remote side with the unfetchable file serves.\<close>

definition flaky_tree :: "rtree list" where
  "flaky_tree = [RFile ''l'' ''lost.txt'' (JStr ''text/plain''),
                 RFile ''k'' ''kept.txt'' (JStr ''text/plain'')]"

text \<open>
  The example downloaded into the local path \<^verbatim>\<open>data/Reports/..\<close>, where \<^verbatim>\<open>data\<close> exists and
  \<^verbatim>\<open>data/Reports\<close> does not: the world in which the first run stops, and the world that a
  second run, started there, leaves.
\<close>

definition interrupted_world :: world where
  "interrupted_world =
     \<lparr>cwd = [],
      disk = [[''data''] \<mapsto> Dir, [''data'', ''Reports''] \<mapsto> Dir],
      stdout = [],
      sent = [children_request example_client (JStr ''s1'') (JStr ''d1'') (JStr ''root'')]\<rparr>"

definition resumed_world :: world where
  "resumed_world =
     \<lparr>cwd = [],
      disk = [[''data''] \<mapsto> Dir,
              [''data'', ''Reports''] \<mapsto> Dir,
              [''data'', ''Reports'', ''q1.pdf''] \<mapsto> File ''%PDF-1.7'',
              [''data'', ''readme.txt''] \<mapsto> File ''read me''],
      stdout = [''File downloaded: data/Reports/../Reports/q1.pdf'',
                ''File downloaded: data/Reports/../readme.txt''],
      sent = [children_request example_client (JStr ''s1'') (JStr ''d1'') (JStr ''root''),
              children_request example_client (JStr ''s1'') (JStr ''d1'') (JStr ''root''),
              children_request example_client (JStr ''s1'') (JStr ''d1'') (JStr ''a''),
              authorized_get example_client (file_download_url (JStr ''s1'') (JStr ''d1'') (JStr ''q'')),
              authorized_get example_client (file_download_url (JStr ''s1'') (JStr ''d1'') (JStr ''b''))]\<rparr>"

text \<open>
  A remote side that lists one empty folder whose name is not a single path component,
  and a disk on which \<^verbatim>\<open>data\<close> holds the file \<^verbatim>\<open>file\<close>: the world before a download, after a
  first one, and after a second one.
\<close>

definition dotted_item :: json where
  "dotted_item = JObj [(''id'', JStr ''n''), (''name'', JStr ''n/../file/.''), (''folder'', JObj [])]"

definition dotted_remote :: remote where
  "dotted_remote rq =
     (if req_url rq = children_url (JStr ''s1'') (JStr ''d1'') (JStr ''root'') then
        Inr (json_response (JObj [(''value'', JArr [dotted_item])]))
      else Inr (json_response (JObj [(''value'', JArr [])])))"

definition dotted_tree :: "rtree list" where
  "dotted_tree = [RFolder ''n'' ''n/../file/.'' []]"

definition file_world :: world where
  "file_world =
     \<lparr>cwd = [], disk = [[''data''] \<mapsto> Dir, [''data'', ''file''] \<mapsto> File ''old''],
      stdout = [], sent = []\<rparr>"

definition file_world_once :: world where
  "file_world_once =
     \<lparr>cwd = [],
      disk = [[''data''] \<mapsto> Dir, [''data'', ''file''] \<mapsto> File ''old'', [''data'', ''n''] \<mapsto> Dir],
      stdout = [],
      sent = [children_request example_client (JStr ''s1'') (JStr ''d1'') (JStr ''root''),
              children_request example_client (JStr ''s1'') (JStr ''d1'') (JStr ''n'')]\<rparr>"

definition file_world_twice :: world where
  "file_world_twice =
     \<lparr>cwd = [],
      disk = [[''data''] \<mapsto> Dir, [''data'', ''file''] \<mapsto> File ''old'', [''data'', ''n''] \<mapsto> Dir],
      stdout = [],
      sent = [children_request example_client (JStr ''s1'') (JStr ''d1'') (JStr ''root''),
              children_request example_client (JStr ''s1'') (JStr ''d1'') (JStr ''n''),
              children_request example_client (JStr ''s1'') (JStr ''d1'') (JStr ''root'')]\<rparr>"

text \<open>
  The remote side with the two files again, but the request for the content of the
  second file gets no response: the HTTP library raises.
\<close>

definition cut_remote :: remote where
  "cut_remote rq =
     (if req_url rq = children_url (JStr ''s1'') (JStr ''d1'') (JStr ''root'') then
        Inr (json_response (JObj [(''value'', JArr [lost_item, kept_item])]))
      else if req_url rq = file_download_url (JStr ''s1'') (JStr ''d1'') (JStr ''k'') then
        Inl RequestException
      else Inr not_found)"

text \<open>A local disk on which \<^verbatim>\<open>data\<close> holds a file with the name of the example's folder.\<close>

definition occupied_world :: world where
  "occupied_world =
     \<lparr>cwd = [], disk = [[''data''] \<mapsto> Dir, [''data'', ''Reports''] \<mapsto> File ''old''],
      stdout = [], sent = []\<rparr>"

section \<open>Facts about paths and the filesystem\<close>

lemma split_path_nonempty: "split_path s \<noteq> []"
  by (induction s) (auto split: list.splits)

lemma split_path_append:
  "split_path (a @ CHR ''/'' # b) = split_path a @ split_path b"
proof (induction a)
  case Nil
  show ?case by simp
next
  case (Cons c a)
  obtain x xs where "split_path a = x # xs"
    using split_path_nonempty[of a] by (cases "split_path a") auto
  with Cons show ?case by simp
qed

lemma split_path_plain: "CHR ''/'' \<notin> set nm \<Longrightarrow> split_path nm = [nm]"
  by (induction nm) auto

lemma components_slash: "components (a @ CHR ''/'' # b) = components a @ components b"
  by (simp add: components_def split_path_append)

lemma components_plain: "plain_name nm \<Longrightarrow> components nm = [nm]"
  by (simp add: components_def split_path_plain plain_name_def)

lemma components_nil: "components [] = []"
  by (simp add: components_def)

lemma joined_cases:
  "joined p nm = nm \<and> p = [] \<or> (\<exists>p'. joined p nm = p' @ CHR ''/'' # nm \<and> p \<noteq> []
      \<and> (p = p' \<or> p = p' @ ''/''))"
proof (cases "p = []")
  case True
  then show ?thesis by (simp add: joined_def)
next
  case False
  show ?thesis
  proof (cases "last p = CHR ''/''")
    case True
    with False have "p = butlast p @ ''/''" by (metis append_butlast_last_id)
    with True False show ?thesis by (auto simp: joined_def)
  next
    case nl: False
    with False show ?thesis by (auto simp: joined_def)
  qed
qed

lemma components_joined:
  assumes "plain_name nm"
  shows "components (joined p nm) = components p @ [nm]"
  using joined_cases[of p nm] components_plain[OF assms] components_slash[of _ nm]
    components_slash[of _ "[]"]
  by (auto simp: components_nil)

lemma start_dir_joined:
  assumes "plain_name nm"
  shows "start_dir wd (joined p nm) = start_dir wd p"
proof -
  from assms have "hd nm \<noteq> CHR ''/''" by (cases nm) (auto simp: plain_name_def)
  then show ?thesis
    using joined_cases[of p nm] assms
    by (cases p) (auto simp: start_dir_def plain_name_def joined_def)
qed

lemma nul_joined:
  "plain_name nm \<Longrightarrow> CHR 0x00 \<in> set (joined p nm) \<longleftrightarrow> CHR 0x00 \<in> set p"
  by (auto simp: joined_def plain_name_def)

lemma joined_nonempty: "plain_name nm \<Longrightarrow> joined p nm \<noteq> []"
  by (auto simp: joined_def plain_name_def)

lemma joined_no_slash_end: "plain_name nm \<Longrightarrow> \<not> ends_with_slash (joined p nm)"
  by (cases nm rule: rev_cases) (auto simp: joined_def plain_name_def ends_with_slash_def)

lemma path_target_joined:
  assumes "plain_name nm"
  shows "path_target wd f (joined p nm) =
     (case directory_at wd f p of Inl e \<Rightarrow> Inl e | Inr d \<Rightarrow> Inr (Entry (d @ [nm])))"
  using assms
  by (simp add: path_target_def directory_at_def components_joined start_dir_joined nul_joined
      joined_nonempty plain_name_def split: sum.splits)

lemma walk_append:
  "walk f d (cs @ cs') = (case walk f d cs of Inl e \<Rightarrow> Inl e | Inr d' \<Rightarrow> walk f d' cs')"
  by (induction cs arbitrary: d) (auto split: option.splits node.splits)

lemma directory_at_joined:
  assumes "plain_name nm"
  shows "directory_at wd f (joined p nm) =
     (case directory_at wd f p of
        Inl e \<Rightarrow> Inl e
      | Inr d \<Rightarrow>
          (case f (d @ [nm]) of
             None \<Rightarrow> Inl FileNotFoundError
           | Some (File b) \<Rightarrow> Inl NotADirectoryError
           | Some Dir \<Rightarrow> Inr (d @ [nm])))"
  using assms
  by (simp add: directory_at_def components_joined start_dir_joined nul_joined walk_append
      plain_name_def split: sum.splits option.splits node.splits)

lemma os_path_exists_joined:
  assumes "plain_name nm" and "directory_at wd f p = Inr d"
  shows "os_path_exists wd f (joined p nm) \<longleftrightarrow> f (d @ [nm]) \<noteq> None"
  using assms
  by (simp add: os_path_exists_def path_target_joined joined_no_slash_end
      split: option.splits node.splits)

lemma os_mkdir_joined:
  assumes "plain_name nm" and "directory_at wd f p = Inr d"
  shows "os_mkdir wd f (joined p nm) =
     (if f (d @ [nm]) \<noteq> None then (Inl FileExistsError, f) else (Inr (), f(d @ [nm] \<mapsto> Dir)))"
  using assms by (simp add: os_mkdir_def path_target_joined)

lemma open_wb_write_joined:
  assumes "plain_name nm" and "directory_at wd f p = Inr d"
  shows "open_wb_write wd f (joined p nm) b =
     (if f (d @ [nm]) = Some Dir then Inl IsADirectoryError else Inr (f(d @ [nm] \<mapsto> File b)))"
  using assms by (simp add: open_wb_write_def path_target_joined joined_no_slash_end)

lemma components_slashes: "components (replicate k (CHR ''/'')) = []"
proof (induction k)
  case 0
  show ?case by (simp add: components_nil)
next
  case (Suc k)
  from components_slash[of "[]" "replicate k (CHR ''/'')"] Suc show ?case
    by (simp add: components_nil)
qed

lemma components_append_slashes: "components (a @ replicate k (CHR ''/'')) = components a"
proof (cases k)
  case 0
  then show ?thesis by simp
next
  case (Suc j)
  with components_slash[of a "replicate j (CHR ''/'')"] show ?thesis
    by (simp add: components_slashes)
qed

lemma rstrip_decomp: "\<exists>k. s = rstrip_slash s @ replicate k (CHR ''/'')"
proof -
  let ?P = "\<lambda>c. c = CHR ''/''"
  have "takeWhile ?P (rev s) = replicate (length (takeWhile ?P (rev s))) (CHR ''/'')"
    by (rule replicate_eqI) (auto dest: set_takeWhileD)
  moreover have "s = rev (dropWhile ?P (rev s)) @ rev (takeWhile ?P (rev s))"
    by (metis rev_append rev_rev_ident takeWhile_dropWhile_id)
  ultimately show ?thesis unfolding rstrip_slash_def by (metis rev_replicate)
qed

lemma rstrip_nonempty:
  assumes "s \<noteq> replicate (length s) (CHR ''/'')"
  shows "rstrip_slash s \<noteq> []"
proof
  assume "rstrip_slash s = []"
  with rstrip_decomp[of s] obtain k where "s = replicate k (CHR ''/'')" by auto
  with assms show False by simp
qed

lemma rstrip_facts:
  assumes "s \<noteq> replicate (length s) (CHR ''/'')"
  shows "rstrip_slash s \<noteq> [] \<and> components (rstrip_slash s) = components s
     \<and> hd (rstrip_slash s) = hd s
     \<and> (CHR 0x00 \<in> set (rstrip_slash s) \<longleftrightarrow> CHR 0x00 \<in> set s)"
proof -
  from rstrip_decomp[of s] obtain k where k: "s = rstrip_slash s @ replicate k (CHR ''/'')" by blast
  have ne: "rstrip_slash s \<noteq> []" by (rule rstrip_nonempty[OF assms])
  have "components s = components (rstrip_slash s)"
    using components_append_slashes[of "rstrip_slash s" k] k by simp
  moreover have "hd s = hd (rstrip_slash s)" using k ne by (metis hd_append2)
  moreover have "CHR 0x00 \<in> set s \<longleftrightarrow> CHR 0x00 \<in> set (rstrip_slash s)"
  proof -
    have "set s = set (rstrip_slash s) \<union> set (replicate k (CHR ''/''))"
      using k by (metis set_append)
    then show ?thesis by auto
  qed
  ultimately show ?thesis using ne by simp
qed

lemma path_split_slash:
  assumes "CHR ''/'' \<notin> set nm"
  shows "path_split (a @ CHR ''/'' # nm) =
     (if a @ ''/'' \<noteq> replicate (Suc (length a)) (CHR ''/'') then rstrip_slash (a @ ''/'') else a @ ''/'', nm)"
proof -
  have r: "rev (a @ CHR ''/'' # nm) = rev nm @ CHR ''/'' # rev a" by simp
  have t: "takeWhile (\<lambda>c. c \<noteq> CHR ''/'') (rev nm @ CHR ''/'' # rev a) = rev nm"
    using assms by (subst takeWhile_append2) auto
  have d: "dropWhile (\<lambda>c. c \<noteq> CHR ''/'') (rev nm @ CHR ''/'' # rev a) = CHR ''/'' # rev a"
    using assms by (subst dropWhile_append2) auto
  show ?thesis unfolding path_split_def r t d by (simp add: Let_def)
qed

lemma path_split_plain:
  assumes "CHR ''/'' \<notin> set nm"
  shows "path_split nm = ([], nm)"
proof -
  have t: "takeWhile (\<lambda>c. c \<noteq> CHR ''/'') (rev nm) = rev nm" using assms by auto
  have d: "dropWhile (\<lambda>c. c \<noteq> CHR ''/'') (rev nm) = []" using assms by auto
  show ?thesis unfolding path_split_def t d by (simp add: Let_def)
qed

lemma makedirs_parts_joined:
  assumes nm: "plain_name nm"
  shows "\<exists>h. makedirs_parts (joined p nm) = (h, nm)
     \<and> (h = [] \<or> (components h = components p \<and> start_dir wd h = start_dir wd p
           \<and> (CHR 0x00 \<in> set h \<longleftrightarrow> CHR 0x00 \<in> set p)))"
proof -
  from nm have ns: "CHR ''/'' \<notin> set nm" and ne: "nm \<noteq> []" by (auto simp: plain_name_def)
  from joined_cases[of p nm] consider (empty) "joined p nm = nm" "p = []"
    | (slash) p' where "joined p nm = p' @ CHR ''/'' # nm" "p \<noteq> []" "p = p' \<or> p = p' @ ''/''"
    by blast
  then show ?thesis
  proof cases
    case empty
    then show ?thesis using path_split_plain[OF ns] ne by (simp add: makedirs_parts_def)
  next
    case slash
    let ?h0 = "p' @ ''/''"
    have cp: "components ?h0 = components p"
      using slash(3) components_slash[of p' "[]"] by (auto simp: components_nil)
    have hp: "hd ?h0 = hd p" using slash(2,3) by (cases p') auto
    have np: "CHR 0x00 \<in> set ?h0 \<longleftrightarrow> CHR 0x00 \<in> set p" using slash(3) by auto
    show ?thesis
    proof (cases "?h0 = replicate (Suc (length p')) (CHR ''/'')")
      case True
      then have "path_split (joined p nm) = (?h0, nm)"
        using path_split_slash[OF ns, of p'] slash(1) by simp
      moreover have "start_dir wd ?h0 = start_dir wd p" using hp slash(2) by (simp add: start_dir_def)
      ultimately show ?thesis using cp np ne by (simp add: makedirs_parts_def)
    next
      case False
      then have ps: "path_split (joined p nm) = (rstrip_slash ?h0, nm)"
        using path_split_slash[OF ns, of p'] slash(1) by simp
      from False have "?h0 \<noteq> replicate (length ?h0) (CHR ''/'')" by simp
      from rstrip_facts[OF this]
      have f: "rstrip_slash ?h0 \<noteq> []" "components (rstrip_slash ?h0) = components ?h0"
        "hd (rstrip_slash ?h0) = hd ?h0"
        "CHR 0x00 \<in> set (rstrip_slash ?h0) \<longleftrightarrow> CHR 0x00 \<in> set ?h0" by simp_all
      have "start_dir wd (rstrip_slash ?h0) = start_dir wd p"
        using f(1,3) hp slash(2) by (simp add: start_dir_def)
      with ps f cp np ne show ?thesis by (simp add: makedirs_parts_def)
    qed
  qed
qed

lemma directory_exists:
  assumes "h \<noteq> []" and "CHR 0x00 \<notin> set h"
      and "walk f (start_dir wd h) (components h) = Inr d"
  shows "os_path_exists wd f h"
proof (cases "components h" rule: rev_cases)
  case Nil
  with assms show ?thesis by (simp add: os_path_exists_def path_target_def)
next
  case (snoc cs c)
  with assms(3) obtain d0 where d0: "walk f (start_dir wd h) cs = Inr d0" "walk f d0 [c] = Inr d"
    by (auto simp: walk_append split: sum.splits)
  from d0(2) have "c = ''.'' \<or> c = ''..'' \<or> f (d0 @ [c]) = Some Dir"
    by (auto split: if_splits option.splits node.splits)
  with snoc d0(1) assms(1,2) show ?thesis
    by (auto simp: os_path_exists_def path_target_def)
qed

lemma os_makedirs_joined:
  assumes nm: "plain_name nm" and dir: "directory_at wd f p = Inr d"
  shows "os_makedirs wd f (joined p nm) = os_mkdir wd f (joined p nm)"
proof -
  from makedirs_parts_joined[OF nm, of p wd] obtain h where
    h: "makedirs_parts (joined p nm) = (h, nm)"
       "h = [] \<or> (components h = components p \<and> start_dir wd h = start_dir wd p
           \<and> (CHR 0x00 \<in> set h \<longleftrightarrow> CHR 0x00 \<in> set p))" by blast
  have "h = [] \<or> os_path_exists wd f h"
  proof (cases "h = []")
    case True
    then show ?thesis by simp
  next
    case False
    with h(2) dir have "CHR 0x00 \<notin> set h" "walk f (start_dir wd h) (components h) = Inr d"
      by (auto simp: directory_at_def split: if_splits)
    from directory_exists[OF False this] show ?thesis by simp
  qed
  with h(1) show ?thesis by (subst os_makedirs.simps) auto
qed

lemma grows_refl: "grows S S"
  by (simp add: grows_def)

lemma grows_trans: "grows S T \<Longrightarrow> grows T F \<Longrightarrow> grows S F"
  unfolding grows_def by blast

lemma adds_dirs_refl: "adds_dirs f f"
  by (simp add: adds_dirs_def)

lemma adds_dirs_trans: "adds_dirs f g \<Longrightarrow> adds_dirs g h \<Longrightarrow> adds_dirs f h"
  unfolding adds_dirs_def by metis

lemma adds_dirs_grows: "adds_dirs f f' \<Longrightarrow> grows f f'"
  unfolding adds_dirs_def grows_def by (metis option.distinct(1))

lemma os_mkdir_adds: "os_mkdir wd f p = (r, f') \<Longrightarrow> adds_dirs f f'"
  by (auto simp: os_mkdir_def adds_dirs_def split: sum.splits place.splits if_splits)

lemma os_makedirs_adds: "os_makedirs wd f name = (r, f') \<Longrightarrow> adds_dirs f f'"
proof (induction wd f name arbitrary: r f' rule: os_makedirs.induct)
  case (1 wd f name)
  obtain h t where parts: "makedirs_parts name = (h, t)" by (cases "makedirs_parts name")
  show ?case
  proof (cases "h \<noteq> [] \<and> t \<noteq> [] \<and> \<not> os_path_exists wd f h")
    case False
    with parts "1.prems" have "os_mkdir wd f name = (r, f')"
      by (subst (asm) os_makedirs.simps) auto
    then show ?thesis by (rule os_mkdir_adds)
  next
    case True
    obtain r1 f1 where sub: "os_makedirs wd f h = (r1, f1)" by (cases "os_makedirs wd f h")
    from "1.IH"[OF parts[symmetric] refl True sub] have a1: "adds_dirs f f1" .
    from "1.prems" parts True sub
    have "f' = f1 \<or> os_mkdir wd f1 name = (r, f')"
      by (subst (asm) os_makedirs.simps) (auto split: sum.splits if_splits)
    then show ?thesis
      using a1 os_mkdir_adds[of wd f1 name r f'] adds_dirs_trans by blast
  qed
qed

lemma walk_grows:
  "grows S F \<Longrightarrow> walk S d cs = Inr q \<Longrightarrow> walk F d cs = Inr q"
proof (induction cs arbitrary: d)
  case Nil
  then show ?case by simp
next
  case (Cons c cs)
  show ?case
  proof (cases "c = ''.'' \<or> c = ''..''")
    case True
    with Cons show ?thesis by auto
  next
    case False
    with Cons.prems(2) have "S (d @ [c]) = Some Dir" "walk S (d @ [c]) cs = Inr q"
      by (auto split: option.splits node.splits)
    moreover from this(1) Cons.prems(1) have "F (d @ [c]) = Some Dir" by (simp add: grows_def)
    ultimately show ?thesis using False Cons.IH[OF Cons.prems(1)] by simp
  qed
qed

lemma walk_shape:
  "same_shape G F \<Longrightarrow> walk G d cs = walk F d cs"
proof (induction cs arbitrary: d)
  case Nil
  show ?case by simp
next
  case (Cons c cs)
  have k: "(G (d @ [c]) = None \<longleftrightarrow> F (d @ [c]) = None)
      \<and> (G (d @ [c]) = Some Dir \<longleftrightarrow> F (d @ [c]) = Some Dir)"
    using Cons.prems by (simp add: same_shape_def)
  show ?case
  proof (cases "G (d @ [c])")
    case None
    with k show ?thesis using Cons.IH[OF Cons.prems] by simp
  next
    case (Some nd)
    with k obtain nd' where F: "F (d @ [c]) = Some nd'" "nd = Dir \<longleftrightarrow> nd' = Dir"
      by (cases "F (d @ [c])") auto
    with Some show ?thesis using Cons.IH[OF Cons.prems]
      by (cases nd; cases nd') auto
  qed
qed

lemma path_target_grows:
  "grows S F \<Longrightarrow> path_target wd S p = Inr t \<Longrightarrow> path_target wd F p = Inr t"
  using walk_grows[of S F "start_dir wd p" "butlast (components p)"]
  by (auto simp: path_target_def split: if_splits sum.splits)

lemma path_target_shape:
  "same_shape G F \<Longrightarrow> path_target wd G p = path_target wd F p"
  by (simp add: path_target_def walk_shape)

lemma os_path_exists_grows:
  assumes "grows S F" and "os_path_exists wd S p"
  shows "os_path_exists wd F p"
proof -
  from assms(2) obtain t where t: "path_target wd S p = Inr t"
    by (cases "path_target wd S p") (auto simp: os_path_exists_def)
  from path_target_grows[OF assms(1) t] have t': "path_target wd F p = Inr t" .
  show ?thesis
  proof (cases t)
    case (Directory d)
    with t' show ?thesis by (simp add: os_path_exists_def)
  next
    case (Entry q)
    with assms(2) t have "S q = Some Dir \<or> (\<exists>b. S q = Some (File b) \<and> \<not> ends_with_slash p)"
      by (auto simp: os_path_exists_def split: option.splits node.splits)
    with assms(1) have "F q = Some Dir \<or> (\<exists>b. F q = Some (File b) \<and> \<not> ends_with_slash p)"
      unfolding grows_def by blast
    with t' Entry show ?thesis by (auto simp: os_path_exists_def)
  qed
qed

lemma os_path_exists_shape:
  assumes "same_shape G F"
  shows "os_path_exists wd G p = os_path_exists wd F p"
proof -
  have "\<And>q. (case G q of None \<Rightarrow> False | Some Dir \<Rightarrow> True | Some (File b) \<Rightarrow> \<not> ends_with_slash p)
      = (case F q of None \<Rightarrow> False | Some Dir \<Rightarrow> True | Some (File b) \<Rightarrow> \<not> ends_with_slash p)"
  proof -
    fix q
    from assms have "(G q = None \<longleftrightarrow> F q = None) \<and> (G q = Some Dir \<longleftrightarrow> F q = Some Dir)"
      by (simp add: same_shape_def)
    then show "(case G q of None \<Rightarrow> False | Some Dir \<Rightarrow> True | Some (File b) \<Rightarrow> \<not> ends_with_slash p)
      = (case F q of None \<Rightarrow> False | Some Dir \<Rightarrow> True | Some (File b) \<Rightarrow> \<not> ends_with_slash p)"
      by (cases "G q"; cases "F q") (auto split: node.splits)
  qed
  then show ?thesis
    by (simp add: os_path_exists_def path_target_shape[OF assms] split: sum.splits place.splits)
qed

lemma catches_up_shape:
  assumes "catches_up S G F" and "grows S F"
  shows "same_shape G F"
  unfolding same_shape_def
proof
  fix q
  from assms(1) have "G q = F q \<or> (G q = S q \<and> (\<exists>b. S q = Some (File b)))"
    by (simp add: catches_up_def)
  then show "(G q = None \<longleftrightarrow> F q = None) \<and> (G q = Some Dir \<longleftrightarrow> F q = Some Dir)"
  proof
    assume "G q = F q"
    then show ?thesis by simp
  next
    assume a: "G q = S q \<and> (\<exists>b. S q = Some (File b))"
    then obtain b where b: "S q = Some (File b)" by blast
    with assms(2) obtain b' where "F q = Some (File b')" unfolding grows_def by blast
    with a b show ?thesis by simp
  qed
qed

lemma os_mkdir_exists:
  assumes "os_mkdir wd f p = (Inr (), f')"
  shows "os_path_exists wd f' p"
proof -
  from assms obtain q where q: "path_target wd f p = Inr (Entry q)" "f q = None" "f' = f(q \<mapsto> Dir)"
    by (auto simp: os_mkdir_def split: sum.splits place.splits if_splits)
  from os_mkdir_adds[OF assms] have "grows f f'" by (rule adds_dirs_grows)
  from path_target_grows[OF this q(1)] q(3) show ?thesis
    by (simp add: os_path_exists_def)
qed

lemma os_makedirs_plain_exists:
  assumes nm: "plain_name nm" and ok: "os_makedirs wd f (joined p nm) = (Inr (), f')"
  shows "os_path_exists wd f' (joined p nm)"
proof -
  from makedirs_parts_joined[OF nm, of p wd] obtain h where
    h: "makedirs_parts (joined p nm) = (h, nm)" by blast
  from nm have "nm \<noteq> ''.''" by (simp add: plain_name_def)
  with ok h have "\<exists>f1. os_mkdir wd f1 (joined p nm) = (Inr (), f')"
    by (subst (asm) os_makedirs.simps) (auto split: if_splits prod.splits sum.splits)
  then show ?thesis using os_mkdir_exists by blast
qed


lemma os_path_join_plain:
  "plain_name nm \<Longrightarrow> os_path_join p (JStr nm) = Inr (joined p nm)"
  by (cases nm) (auto simp: os_path_join_def joined_def plain_name_def)

lemma ensure_dir_joined:
  assumes "plain_name nm" and "directory_at (cwd w) (disk w) p = Inr d"
  shows "ensure_dir (joined p nm) w =
     (Inr (), if disk w (d @ [nm]) = None then w\<lparr>disk := (disk w)(d @ [nm] \<mapsto> Dir)\<rparr> else w)"
  using assms
  by (simp add: ensure_dir_def os_path_exists_joined os_makedirs_joined os_mkdir_joined)

lemma directory_at_data: "f [''data''] = Some Dir \<Longrightarrow> directory_at [] f ''data'' = Inr [''data'']"
  by (simp add: directory_at_def components_def start_dir_def)

section \<open>The example, downloaded\<close>

lemma example_download:
  "download_folder_contents 2 example_remote example_client (JStr ''s1'') (JStr ''d1'')
     (JStr ''root'') ''data'' 0 data_world = Some (Inr (), mirrored_world)"
  using os_makedirs_joined[of "''Reports''" "[]" "[[''data''] \<mapsto> Dir]" "''data''" "[''data'']"]
  by (simp add: mirrored_world_def file_download_url_def resource_def example_remote_def
      example_client_def data_world_def children_url_def children_request_def authorized_get_def
      fetch_children_def requests_get_def json_of_def
      json_response_def value_items_def os_path_join_def ensure_dir_def os_path_exists_def
      os_mkdir_def path_target_def components_def start_dir_def ends_with_slash_def
      directory_at_def plain_name_def joined_def download_file_def open_wb_write_def
      authorization_def numeral_2_eq_2 Let_def)

section \<open>The walk lists a served tree in pre-order\<close>

lemma fetch_children_serves:
  assumes "rem (children_request self site_id drive_id folder_id) = Inr resp"
      and "body_json resp = Some fc"
  shows "fetch_children rem self site_id drive_id folder_id w =
     (Inr fc, w\<lparr>sent := sent w @ [children_request self site_id drive_id folder_id]\<rparr>)"
  using assms
  by (simp add: fetch_children_def requests_get_def children_request_def authorized_get_def
      json_of_def Let_def)

lemma serves_iff:
  "serves rem self site_id drive_id folder_id ts \<longleftrightarrow>
     (\<exists>resp fc its. rem (children_request self site_id drive_id folder_id) = Inr resp
        \<and> body_json resp = Some fc \<and> value_items fc = Inr its
        \<and> list_all2 represents its ts \<and> serves_nodes rem self site_id drive_id ts)"
proof (cases "rem (children_request self site_id drive_id folder_id)")
  case (Inl e)
  then show ?thesis by simp
next
  case (Inr resp)
  show ?thesis
  proof (cases "body_json resp")
    case None
    with Inr show ?thesis by simp
  next
    case (Some fc)
    with Inr show ?thesis by (cases "value_items fc") simp_all
  qed
qed

lemma list_loop_serves:
  "list_all2 represents items ts \<Longrightarrow> serves_nodes rem self site_id drive_id ts \<Longrightarrow> height ts \<le> n \<Longrightarrow>
   \<exists>w'. list_folder_contents_loop n rem self site_id drive_id items level acc w
          = Some (Inr (acc @ preorder ts), w') \<and> disk w' = disk w \<and> stdout w' = stdout w"
proof (induction ts arbitrary: items n level acc w rule: preorder.induct)
  case 1
  then show ?case by simp
next
  case (2 i nm mt ts)
  then obtain item rest where it: "items = item # rest" "represents item (RFile i nm mt)"
     "list_all2 represents rest ts"
    by (auto simp: list_all2_Cons2)
  from 2(1)[OF it(3), of n level "acc @ [file_entry (JStr nm) mt]" w] 2(3,4)
  show ?case using it(1,2) by (auto split: sum.splits)
next
  case (3 i nm cs ts)
  then obtain item rest where it: "items = item # rest" "represents item (RFolder i nm cs)"
     "list_all2 represents rest ts"
    by (auto simp: list_all2_Cons2)
  from 3(4) have sv: "serves rem self site_id drive_id (JStr i) cs" 
    and svn: "serves_nodes rem self site_id drive_id ts" by auto
  from 3(5) obtain m where n: "n = Suc m" "height cs \<le> m" "height ts \<le> n"
    by (cases n) auto
  from sv obtain resp fc its where r: "rem (children_request self site_id drive_id (JStr i)) = Inr resp"
     "body_json resp = Some fc" "value_items fc = Inr its" "list_all2 represents its cs"
     "serves_nodes rem self site_id drive_id cs"
    unfolding serves_iff by blast
  let ?w1 = "w\<lparr>sent := sent w @ [children_request self site_id drive_id (JStr i)]\<rparr>"
  from 3(1)[OF r(4,5) n(2), of "level + 1" "[]" ?w1]
  obtain w2 where sub: "list_folder_contents_loop m rem self site_id drive_id its (level + 1) [] ?w1
      = Some (Inr (preorder cs), w2)" "disk w2 = disk w" "stdout w2 = stdout w"
    by auto
  have call: "list_folder_contents n rem self site_id drive_id (JStr i) (level + 1) w = Some (Inr (preorder cs), w2)"
    using sub r(3) fetch_children_serves[of rem self site_id drive_id "JStr i" resp fc w, OF r(1,2)]
    by (simp add: n(1))
  from 3(2)[OF it(3) svn n(3), of level "acc @ [folder_entry (JStr nm)] @ preorder cs" w2]
  obtain w3 where rest: "list_folder_contents_loop n rem self site_id drive_id rest level
       (acc @ [folder_entry (JStr nm)] @ preorder cs) w2 = Some (Inr (acc @ [folder_entry (JStr nm)] @ preorder cs @ preorder ts), w3)"
     "disk w3 = disk w2" "stdout w3 = stdout w2" by auto
  show ?case using it(1,2) call rest sub(2,3)
    by (simp del: list_folder_contents.simps)
qed

lemma length_preorder: "length (preorder ts) = count_folders ts + count_files ts"
  by (induction ts rule: preorder.induct) auto


lemma example_serves:
  "serves example_remote example_client (JStr ''s1'') (JStr ''d1'') (JStr ''root'') example_tree"
  by (simp add: example_remote_def example_tree_def children_request_def authorized_get_def
      children_url_def json_response_def value_items_def)


section \<open>Listing the drive root ignores the path\<close>

text \<open>
  Claim C9. \<^verbatim>\<open>get_folder_content\<close> does not look at its \<^verbatim>\<open>folder_path\<close> argument: whatever is
  passed, it sends the children request of the drive root and returns what it returns for
  \<^verbatim>\<open>'root'\<close>.
\<close>

theorem get_folder_content_ignores_folder_path:
  "get_folder_content rem self site_id drive_id folder_path w
     = get_folder_content rem self site_id drive_id ''root'' w
   \<and> sent (snd (get_folder_content rem self site_id drive_id folder_path w))
     = sent w @ [authorized_get self (''https://graph.microsoft.com/v1.0/sites/'' @ py_str site_id
                               @ ''/drives/'' @ py_str drive_id @ ''/root/children'')]"
  by (simp add: get_folder_content_def requests_get_def authorized_get_def Let_def split: sum.splits)

section \<open>Items without a marker, listings without items\<close>

text \<open>
  Claim C10. An item that carries neither the \<^verbatim>\<open>folder\<close> nor the \<^verbatim>\<open>file\<close> marker is passed
  over: the walk adds no entry for it, the download loop creates nothing, requests nothing
  and prints nothing for it. A children response without \<^verbatim>\<open>value\<close> gives the empty
  listing, and the download of that folder does nothing beyond the request itself.
\<close>

theorem unmarked_item_dropped:
  "(py_in ''folder'' item = Inr False \<and> py_in ''file'' item = Inr False \<longrightarrow>
      list_folder_contents_loop n rem self site_id drive_id (item # rest) level items_list w
        = list_folder_contents_loop n rem self site_id drive_id rest level items_list w
      \<and> download_folder_contents_loop n rem self site_id drive_id (item # rest) local_folder_path level w
        = download_folder_contents_loop n rem self site_id drive_id rest local_folder_path level w)
   \<and> (rem (children_request self site_id drive_id folder_id) = Inr resp
        \<and> body_json resp = Some folder_contents
        \<and> py_in ''value'' folder_contents = Inr False \<longrightarrow>
      list_folder_contents (Suc n) rem self site_id drive_id folder_id level w
        = Some (Inr [], w\<lparr>sent := sent w @ [children_request self site_id drive_id folder_id]\<rparr>)
      \<and> download_folder_contents (Suc n) rem self site_id drive_id folder_id local_folder_path level w
        = Some (Inr (), w\<lparr>sent := sent w @ [children_request self site_id drive_id folder_id]\<rparr>))"
  by (simp add: fetch_children_def requests_get_def children_request_def authorized_get_def
      json_of_def value_items_def)

theorem unmarked_item_dropped_witness:
  "py_in ''folder'' plain_item = Inr False \<and> py_in ''file'' plain_item = Inr False
   \<and> list_folder_contents_loop 0 notfound_remote example_client (JStr ''s1'') (JStr ''d1'')
         [plain_item] 0 [] data_world = Some (Inr [], data_world)
   \<and> download_folder_contents_loop 0 notfound_remote example_client (JStr ''s1'') (JStr ''d1'')
         [plain_item] ''data'' 0 data_world = Some (Inr (), data_world)
   \<and> notfound_remote (children_request example_client (JStr ''s1'') (JStr ''d1'') (JStr ''gone''))
       = Inr not_found
   \<and> body_json not_found = Some (JObj [(''error'', JObj [(''code'', JStr ''itemNotFound'')])])
   \<and> py_in ''value'' (JObj [(''error'', JObj [(''code'', JStr ''itemNotFound'')])]) = Inr False
   \<and> list_folder_contents 1 notfound_remote example_client (JStr ''s1'') (JStr ''d1'') (JStr ''gone'')
         0 data_world
       = Some (Inr [], data_world\<lparr>sent :=
           [children_request example_client (JStr ''s1'') (JStr ''d1'') (JStr ''gone'')]\<rparr>)
   \<and> download_folder_contents 1 notfound_remote example_client (JStr ''s1'') (JStr ''d1'')
         (JStr ''gone'') ''data'' 0 data_world
       = Some (Inr (), data_world\<lparr>sent :=
           [children_request example_client (JStr ''s1'') (JStr ''d1'') (JStr ''gone'')]\<rparr>)"
proof -
  have h1: "py_in ''folder'' plain_item = Inr False \<and> py_in ''file'' plain_item = Inr False"
    by (simp add: plain_item_def)
  have h2: "notfound_remote (children_request example_client (JStr ''s1'') (JStr ''d1'') (JStr ''gone''))
       = Inr not_found
     \<and> body_json not_found = Some (JObj [(''error'', JObj [(''code'', JStr ''itemNotFound'')])])
     \<and> py_in ''value'' (JObj [(''error'', JObj [(''code'', JStr ''itemNotFound'')])]) = Inr False"
    by (simp add: notfound_remote_def not_found_def)
  from unmarked_item_dropped[where item = plain_item and rem = notfound_remote
      and self = example_client and site_id = "JStr ''s1''" and drive_id = "JStr ''d1''"
      and folder_id = "JStr ''gone''" and resp = not_found
      and folder_contents = "JObj [(''error'', JObj [(''code'', JStr ''itemNotFound'')])]"
      and n = 0 and rest = "[]" and level = 0 and items_list = "[]" and w = data_world
      and local_folder_path = "''data''"] h1 h2
  show ?thesis
    by (simp add: data_world_def del: list_folder_contents.simps download_folder_contents.simps)
qed

section \<open>A download that fails\<close>

text \<open>
  Claim C3. When the content request of a file is answered with a status other than 200,
  \<^verbatim>\<open>download_file\<close> returns normally, leaves the local disk as it was and prints the failure
  line; inside \<^verbatim>\<open>download_folder_contents\<close> the loop then goes on with the remaining
  siblings. \<^verbatim>\<open>download_file\<close> changes the disk only when the response came back with
  status 200.
\<close>

theorem failed_download_skipped:
  "(rem (authorized_get self download_url) = Inr resp \<and> status_code resp \<noteq> 200 \<longrightarrow>
      download_file rem self download_url local_path file_name w
        = (Inr (), w\<lparr>sent := sent w @ [authorized_get self download_url],
                       stdout := stdout w @ [failure_line file_name resp]\<rparr>))
   \<and> (py_in ''folder'' item = Inr False \<and> py_in ''file'' item = Inr True
        \<and> py_getitem item ''name'' = Inr nm \<and> py_getitem item ''id'' = Inr i
        \<and> rem (authorized_get self (file_download_url site_id drive_id i)) = Inr resp'
        \<and> status_code resp' \<noteq> 200 \<longrightarrow>
      download_folder_contents_loop n rem self site_id drive_id (item # rest) local_folder_path level w
        = download_folder_contents_loop n rem self site_id drive_id rest local_folder_path level
            (w\<lparr>sent := sent w @ [authorized_get self (file_download_url site_id drive_id i)],
               stdout := stdout w @ [failure_line nm resp']\<rparr>))
   \<and> (disk (snd (download_file rem self download_url local_path file_name w)) \<noteq> disk w \<longrightarrow>
        (\<exists>r. rem (authorized_get self download_url) = Inr r \<and> status_code r = 200))"
  by (auto simp add: download_file_def requests_get_def authorized_get_def failure_line_def Let_def
      split: sum.splits if_splits)

theorem failed_download_skipped_witness:
  "flaky_remote (authorized_get example_client (file_download_url (JStr ''s1'') (JStr ''d1'') (JStr ''l'')))
     = Inr not_found
   \<and> status_code not_found \<noteq> 200
   \<and> py_in ''folder'' lost_item = Inr False \<and> py_in ''file'' lost_item = Inr True
   \<and> py_getitem lost_item ''name'' = Inr (JStr ''lost.txt'')
   \<and> py_getitem lost_item ''id'' = Inr (JStr ''l'')
   \<and> download_file flaky_remote example_client
        (file_download_url (JStr ''s1'') (JStr ''d1'') (JStr ''l'')) ''data'' (JStr ''lost.txt'') data_world
      = (Inr (), data_world\<lparr>
           sent := [authorized_get example_client (file_download_url (JStr ''s1'') (JStr ''d1'') (JStr ''l''))],
           stdout := [''Failed to download lost.txt: 404 - Not Found'']\<rparr>)
   \<and> map_option (\<lambda>r. (fst r, disk (snd r) [''data'', ''lost.txt''], disk (snd r) [''data'', ''kept.txt''], stdout (snd r)))
        (download_folder_contents_loop 0 flaky_remote example_client (JStr ''s1'') (JStr ''d1'')
          [lost_item, kept_item] ''data'' 0 data_world)
      = Some (Inr (), None, Some (File ''kept''),
              [''Failed to download lost.txt: 404 - Not Found'', ''File downloaded: data/kept.txt''])
   \<and> disk (snd (download_file flaky_remote example_client
        (file_download_url (JStr ''s1'') (JStr ''d1'') (JStr ''k'')) ''data'' (JStr ''kept.txt'') data_world))
      \<noteq> disk data_world
   \<and> (\<exists>r. flaky_remote (authorized_get example_client (file_download_url (JStr ''s1'') (JStr ''d1'') (JStr ''k'')))
            = Inr r \<and> status_code r = 200)"
proof -
  have str404: "str_int 404 = ''404''"
    by (simp add: str_int_def str_nat.simps digit_char_def)
  note defs = flaky_remote_def authorized_get_def file_download_url_def children_url_def resource_def
    not_found_def lost_item_def kept_item_def example_client_def data_world_def
  have h1: "flaky_remote (authorized_get example_client (file_download_url (JStr ''s1'') (JStr ''d1'') (JStr ''l'')))
     = Inr not_found \<and> status_code not_found \<noteq> 200"
    by (simp add: defs)
  have h2: "py_in ''folder'' lost_item = Inr False \<and> py_in ''file'' lost_item = Inr True
   \<and> py_getitem lost_item ''name'' = Inr (JStr ''lost.txt'')
   \<and> py_getitem lost_item ''id'' = Inr (JStr ''l'')"
    by (simp add: defs)
  have h3: "disk (snd (download_file flaky_remote example_client
        (file_download_url (JStr ''s1'') (JStr ''d1'') (JStr ''k'')) ''data'' (JStr ''kept.txt'') data_world))
      \<noteq> disk data_world"
    by (simp add: defs download_file_def requests_get_def os_path_join_def open_wb_write_def
        path_target_def components_def start_dir_def ends_with_slash_def fun_eq_iff Let_def)
  from failed_download_skipped[where rem = flaky_remote and self = example_client
      and download_url = "file_download_url (JStr ''s1'') (JStr ''d1'') (JStr ''l'')"
      and resp = not_found and local_path = "''data''" and file_name = "JStr ''lost.txt''"
      and w = data_world and item = lost_item and nm = "JStr ''lost.txt''" and i = "JStr ''l''"
      and site_id = "JStr ''s1''" and drive_id = "JStr ''d1''" and resp' = not_found
      and n = 0 and rest = "[kept_item]" and local_folder_path = "''data''" and level = 0]
    failed_download_skipped[where rem = flaky_remote and self = example_client
      and download_url = "file_download_url (JStr ''s1'') (JStr ''d1'') (JStr ''k'')"
      and local_path = "''data''" and file_name = "JStr ''kept.txt''" and w = data_world]
    h1 h2 h3
  show ?thesis
    apply (simp add: failure_line_def str404 del: download_folder_contents.simps)
    apply (simp add: defs str404 download_file_def requests_get_def os_path_join_def open_wb_write_def
        path_target_def components_def start_dir_def ends_with_slash_def Let_def)
    done
qed

section \<open>A folder whose children cannot be decoded\<close>

text \<open>
  Claim C7. \<^verbatim>\<open>download_folder_contents\<close> has no handler around the fetch of a folder's
  children. When the answer to the children request does not decode, the call raises; when
  that happens for a subfolder, the loop of the parent raises the same exception right
  after the subfolder's directory was made: nothing is printed and the remaining siblings
  are not visited.
\<close>

theorem children_failure_raises:
  "(rem (children_request self site_id drive_id folder_id) = Inr resp \<and> body_json resp = None \<longrightarrow>
      download_folder_contents (Suc n) rem self site_id drive_id folder_id local_folder_path level w
        = Some (Inl JSONDecodeError,
                w\<lparr>sent := sent w @ [children_request self site_id drive_id folder_id]\<rparr>))
   \<and> (py_in ''folder'' item = Inr True \<and> py_getitem item ''name'' = Inr nm
        \<and> os_path_join local_folder_path nm = Inr new_path
        \<and> ensure_dir new_path w = (Inr (), w')
        \<and> py_getitem item ''id'' = Inr i
        \<and> rem (children_request self site_id drive_id i) = Inr resp' \<and> body_json resp' = None \<longrightarrow>
      download_folder_contents_loop (Suc n) rem self site_id drive_id (item # rest) local_folder_path level w
        = Some (Inl JSONDecodeError,
                w'\<lparr>sent := sent w' @ [children_request self site_id drive_id i]\<rparr>))"
  by (simp add: fetch_children_def requests_get_def children_request_def authorized_get_def
      json_of_def)

theorem children_failure_raises_witness:
  "broken_remote (children_request example_client (JStr ''s1'') (JStr ''d1'') (JStr ''z'')) = Inr server_error
   \<and> body_json server_error = None
   \<and> py_in ''folder'' broken_item = Inr True
   \<and> py_getitem broken_item ''name'' = Inr (JStr ''Broken'')
   \<and> os_path_join ''data'' (JStr ''Broken'') = Inr ''data/Broken''
   \<and> ensure_dir ''data/Broken'' data_world
       = (Inr (), data_world\<lparr>disk := [[''data''] \<mapsto> Dir, [''data'', ''Broken''] \<mapsto> Dir]\<rparr>)
   \<and> py_getitem broken_item ''id'' = Inr (JStr ''z'')
   \<and> download_folder_contents 1 broken_remote example_client (JStr ''s1'') (JStr ''d1'') (JStr ''z'')
        ''data/Broken'' 1 data_world
       = Some (Inl JSONDecodeError,
               data_world\<lparr>sent := [children_request example_client (JStr ''s1'') (JStr ''d1'') (JStr ''z'')]\<rparr>)
   \<and> download_folder_contents_loop 1 broken_remote example_client (JStr ''s1'') (JStr ''d1'')
        [broken_item, kept_item] ''data'' 0 data_world
       = Some (Inl JSONDecodeError,
               \<lparr>cwd = [], disk = [[''data''] \<mapsto> Dir, [''data'', ''Broken''] \<mapsto> Dir], stdout = [],
                sent = [children_request example_client (JStr ''s1'') (JStr ''d1'') (JStr ''z'')]\<rparr>)"
proof -
  note defs = broken_remote_def broken_item_def server_error_def children_request_def
    authorized_get_def children_url_def file_download_url_def resource_def example_client_def
    data_world_def
  have h1: "broken_remote (children_request example_client (JStr ''s1'') (JStr ''d1'') (JStr ''z''))
      = Inr server_error \<and> body_json server_error = None"
    by (simp add: defs)
  have h2: "py_in ''folder'' broken_item = Inr True
     \<and> py_getitem broken_item ''name'' = Inr (JStr ''Broken'')
     \<and> os_path_join ''data'' (JStr ''Broken'') = Inr ''data/Broken''
     \<and> py_getitem broken_item ''id'' = Inr (JStr ''z'')"
    by (simp add: broken_item_def os_path_join_def)
  have h3: "ensure_dir ''data/Broken'' data_world
       = (Inr (), data_world\<lparr>disk := [[''data''] \<mapsto> Dir, [''data'', ''Broken''] \<mapsto> Dir]\<rparr>)"
    using ensure_dir_joined[of "''Broken''" data_world "''data''" "[''data'']"]
    by (simp add: directory_at_data plain_name_def joined_def data_world_def)
  from children_failure_raises[where rem = broken_remote and self = example_client
      and site_id = "JStr ''s1''" and drive_id = "JStr ''d1''" and folder_id = "JStr ''z''"
      and resp = server_error and n = 0 and local_folder_path = "''data/Broken''" and level = 1
      and w = data_world]
    children_failure_raises[where rem = broken_remote and self = example_client
      and site_id = "JStr ''s1''" and drive_id = "JStr ''d1''"
      and n = 0 and local_folder_path = "''data''" and level = 0
      and w = data_world and item = broken_item and nm = "JStr ''Broken''"
      and new_path = "''data/Broken''" and i = "JStr ''z''" and resp' = server_error
      and w' = "data_world\<lparr>disk := [[''data''] \<mapsto> Dir, [''data'', ''Broken''] \<mapsto> Dir]\<rparr>"
      and rest = "[kept_item]"]
    h1 h2 h3
  show ?thesis
    by (simp add: data_world_def del: download_folder_contents.simps)
qed

section \<open>A token response without a token\<close>

text \<open>
  Claim C5 says that a token response without \<^verbatim>\<open>access_token\<close> surfaces as an authentication
  failure. The code does not do that: \<^verbatim>\<open>response.json().get('access_token')\<close> returns
  \<^verbatim>\<open>None\<close>, and nothing is raised. For the identity provider that rejects the credentials,
  \<^verbatim>\<open>get_access_token\<close> returns \<^verbatim>\<open>None\<close> normally.
\<close>

theorem missing_token_not_an_error:
  "get_access_token rejecting_remote (new_client ''t'' ''c'' ''s'' ''https://graph.microsoft.com/'') empty_world
     = (Inr JNull,
        empty_world\<lparr>sent := [token_request (new_client ''t'' ''c'' ''s'' ''https://graph.microsoft.com/'')]\<rparr>)
   \<and> \<not> isl (fst (get_access_token rejecting_remote
                   (new_client ''t'' ''c'' ''s'' ''https://graph.microsoft.com/'') empty_world))"
  by (simp add: get_access_token_def requests_post_def rejecting_remote_def rejection_def
      token_request_def json_of_def empty_world_def)

text \<open>
  Claim C5, as the code has it. When the token response decodes to a dictionary without
  \<^verbatim>\<open>access_token\<close>, the constructor returns normally with \<^verbatim>\<open>None\<close> stored as the token, and
  a later call sends the header \<^verbatim>\<open>Authorization: Bearer None\<close>.
\<close>

theorem missing_token_stored_and_sent:
  assumes "rem (token_request (new_client tenant client secret res)) = Inr resp"
      and "body_json resp = Some (JObj kvs)"
      and "map_of kvs ''access_token'' = None"
  shows "init rem tenant client secret res w
           = (Inr (new_client tenant client secret res),
              w\<lparr>sent := sent w @ [token_request (new_client tenant client secret res)]\<rparr>)
         \<and> access_token (new_client tenant client secret res) = JNull
         \<and> sent (snd (get_site_id rem (new_client tenant client secret res) site_url w))
             = sent w @ [\<lparr>req_method = ''GET'',
                  req_url = ''https://graph.microsoft.com/v1.0/sites/'' @ py_str site_url,
                  req_headers = [(''Authorization'', ''Bearer None'')], req_data = []\<rparr>]"
  using assms
  by (simp add: init_def get_access_token_def requests_post_def json_of_def authorization_def
      get_site_id_def requests_get_def token_request_def new_client_def Let_def split: sum.splits)

theorem missing_token_stored_and_sent_witness:
  "rejecting_remote (token_request (new_client ''t'' ''c'' ''s'' ''https://graph.microsoft.com/''))
      = Inr rejection
   \<and> body_json rejection = Some (JObj [(''error'', JStr ''invalid_client'')])
   \<and> map_of [(''error'', JStr ''invalid_client'')] ''access_token'' = None
   \<and> init rejecting_remote ''t'' ''c'' ''s'' ''https://graph.microsoft.com/'' empty_world
       = (Inr (new_client ''t'' ''c'' ''s'' ''https://graph.microsoft.com/''),
          empty_world\<lparr>sent := [token_request (new_client ''t'' ''c'' ''s'' ''https://graph.microsoft.com/'')]\<rparr>)
   \<and> sent (snd (get_site_id rejecting_remote (new_client ''t'' ''c'' ''s'' ''https://graph.microsoft.com/'')
                  (JStr ''contoso.sharepoint.com:/sites/x'') empty_world))
       = [\<lparr>req_method = ''GET'',
           req_url = ''https://graph.microsoft.com/v1.0/sites/contoso.sharepoint.com:/sites/x'',
           req_headers = [(''Authorization'', ''Bearer None'')], req_data = []\<rparr>]"
proof -
  have h1: "rejecting_remote (token_request (new_client ''t'' ''c'' ''s'' ''https://graph.microsoft.com/''))
      = Inr rejection"
    by (simp add: rejecting_remote_def)
  have h2: "body_json rejection = Some (JObj [(''error'', JStr ''invalid_client'')])"
    by (simp add: rejection_def)
  have h3: "map_of [(''error'', JStr ''invalid_client'')] ''access_token'' = None" by simp
  from missing_token_stored_and_sent[where rem = rejecting_remote and tenant = "''t''"
      and client = "''c''" and secret = "''s''" and res = "''https://graph.microsoft.com/''"
      and resp = rejection and kvs = "[(''error'', JStr ''invalid_client'')]"
      and w = empty_world and site_url = "JStr ''contoso.sharepoint.com:/sites/x''"] h1 h2 h3
  show ?thesis by (simp add: empty_world_def)
qed

section \<open>The address of a file's content\<close>

text \<open>
  Claim C4 says that the content of a file is requested from
  \<^verbatim>\<open>https://graph.microsoft.com/v1.0/sites/{site_id}/drives/{drive_id}/items/{item_id}/content\<close>.
  The code puts the item's own identifier into the address, but takes the beginning of
  the address from the module-level \<^verbatim>\<open>resource\<close>, which ends with a slash: the address that
  goes out has \<^verbatim>\<open>//v1.0\<close> in it, unlike the children requests of the same run.
\<close>

theorem content_url_double_slash:
  "file_download_url (JStr ''s1'') (JStr ''d1'') (JStr ''q'')
     = ''https://graph.microsoft.com//v1.0/sites/s1/drives/d1/items/q/content''
   \<and> map_option (\<lambda>r. map req_url (sent (snd r)))
        (download_folder_contents 2 example_remote example_client (JStr ''s1'') (JStr ''d1'')
           (JStr ''root'') ''data'' 0 data_world)
     = Some [''https://graph.microsoft.com/v1.0/sites/s1/drives/d1/items/root/children'',
             ''https://graph.microsoft.com/v1.0/sites/s1/drives/d1/items/a/children'',
             ''https://graph.microsoft.com//v1.0/sites/s1/drives/d1/items/q/content'',
             ''https://graph.microsoft.com//v1.0/sites/s1/drives/d1/items/b/content'']"
  using example_download
  by (simp add: mirrored_world_def file_download_url_def resource_def children_request_def
      authorized_get_def children_url_def)
section \<open>Termination\<close>

lemma os_path_join_str: "\<exists>np. os_path_join p (JStr nm) = Inr np"
  by (simp add: os_path_join_def)

lemma download_loop_returns:
  "list_all2 represents items ts \<Longrightarrow> serves_nodes rem self site_id drive_id ts \<Longrightarrow> height ts \<le> n \<Longrightarrow>
   \<exists>r. download_folder_contents_loop n rem self site_id drive_id items p level w = Some r"
proof (induction ts arbitrary: items n level p w rule: preorder.induct)
  case 1
  then show ?case by simp
next
  case (2 i nm mt ts)
  then obtain item rest where it: "items = item # rest" "represents item (RFile i nm mt)"
     "list_all2 represents rest ts"
    by (auto simp: list_all2_Cons2)
  obtain r w1 where df: "download_file rem self (file_download_url site_id drive_id (JStr i)) p (JStr nm) w = (r, w1)"
    by (cases "download_file rem self (file_download_url site_id drive_id (JStr i)) p (JStr nm) w")
  from 2(1)[OF it(3), of n p level w1] 2(3,4)
  show ?case using it(1,2) df by (cases r) auto
next
  case (3 i nm cs ts)
  then obtain item rest where it: "items = item # rest" "represents item (RFolder i nm cs)"
     "list_all2 represents rest ts"
    by (auto simp: list_all2_Cons2)
  from 3(4) have sv: "serves rem self site_id drive_id (JStr i) cs" 
    and svn: "serves_nodes rem self site_id drive_id ts" by auto
  from 3(5) obtain m where n: "n = Suc m" "height cs \<le> m" "height ts \<le> n"
    by (cases n) auto
  from sv obtain resp fc its where r: "rem (children_request self site_id drive_id (JStr i)) = Inr resp"
     "body_json resp = Some fc" "value_items fc = Inr its" "list_all2 represents its cs"
     "serves_nodes rem self site_id drive_id cs"
    unfolding serves_iff by blast
  obtain new_path where np: "os_path_join p (JStr nm) = Inr new_path"
    using os_path_join_str by blast
  obtain e w1 where ed: "ensure_dir new_path w = (e, w1)"
    by (cases "ensure_dir new_path w")
  let ?w2 = "w1\<lparr>sent := sent w1 @ [children_request self site_id drive_id (JStr i)]\<rparr>"
  from 3(1)[OF r(4,5) n(2), of new_path "level + 1" ?w2]
  obtain r2 w3 where sub: "download_folder_contents_loop m rem self site_id drive_id its new_path (level + 1) ?w2
      = Some (r2, w3)"
    by auto
  have call: "download_folder_contents n rem self site_id drive_id (JStr i) new_path (level + 1) w1 = Some (r2, w3)"
    using sub r(3) fetch_children_serves[of rem self site_id drive_id "JStr i" resp fc w1, OF r(1,2)]
    by (simp add: n(1))
  from 3(2)[OF it(3) svn n(3), of p level w3]
  obtain r3 where rest: "download_folder_contents_loop n rem self site_id drive_id rest p level w3 = Some r3"
    by auto
  show ?case using it(1,2) np ed call rest
    by (cases e; cases r2) (simp_all del: download_folder_contents.simps)
qed

lemma cyclic_walk_never_returns:
  "list_folder_contents fuel cyclic_remote self site_id drive_id folder_id level w = None"
proof (induction fuel arbitrary: folder_id level w)
  case 0
  show ?case by simp
next
  case (Suc n)
  then show ?case
    by (simp add: fetch_children_def requests_get_def cyclic_remote_def json_response_def
        json_of_def value_items_def)
qed

lemma cyclic_download_never_returns:
  "no_files (disk w) \<Longrightarrow> directory_at (cwd w) (disk w) p = Inr d \<Longrightarrow>
   download_folder_contents fuel cyclic_remote self site_id drive_id folder_id p level w = None"
proof (induction fuel arbitrary: folder_id p level w d)
  case 0
  show ?case by simp
next
  case (Suc n)
  let ?w1 = "w\<lparr>sent := sent w @ [authorized_get self (children_url site_id drive_id folder_id)]\<rparr>"
  let ?np = "joined p ''again''"
  have pn: "plain_name ''again''" by (simp add: plain_name_def)
  have dir1: "directory_at (cwd ?w1) (disk ?w1) p = Inr d" using Suc.prems(2) by simp
  define w2 where "w2 = (if disk ?w1 (d @ [''again'']) = None
      then ?w1\<lparr>disk := (disk ?w1)(d @ [''again''] \<mapsto> Dir)\<rparr> else ?w1)"
  from ensure_dir_joined[OF pn dir1] have ed: "ensure_dir ?np ?w1 = (Inr (), w2)"
    by (simp add: w2_def)
  have nf: "no_files (disk w2)" using Suc.prems(1) by (auto simp: w2_def no_files_def)
  have there: "disk w2 (d @ [''again'']) = Some Dir"
  proof (cases "disk w (d @ [''again''])")
    case None
    then show ?thesis by (simp add: w2_def)
  next
    case (Some nd)
    with Suc.prems(1) have "nd = Dir" by (cases nd) (auto simp: no_files_def)
    with Some show ?thesis by (simp add: w2_def)
  qed
  have "grows (disk w) (disk w2)" by (auto simp: w2_def grows_def)
  with Suc.prems(2) have "directory_at (cwd w2) (disk w2) p = Inr d"
    by (auto simp: directory_at_def w2_def split: if_splits intro: walk_grows)
  with there have dir2: "directory_at (cwd w2) (disk w2) ?np = Inr (d @ [''again''])"
    by (simp add: directory_at_joined[OF pn])
  show ?case
    using Suc.IH[OF nf dir2] ed os_path_join_plain[OF pn, of p]
    by (simp add: fetch_children_def requests_get_def cyclic_remote_def json_response_def
        json_of_def value_items_def authorized_get_def)
qed

text \<open>
  Claim C8. When the remote side serves a finite tree below the folder, the walk and the
  download both come back once the allowed call depth exceeds the nesting depth of the
  tree; the walk comes back normally, with a list that has one entry per folder and per
  file of the tree. Nothing in the code bounds the depth or detects a cycle: against the
  remote side whose folders list themselves, the walk does not come back within any call
  depth, and neither does the download (into an existing local directory, on a disk where
  no file stands in the way of its directories).
\<close>

theorem walk_and_download_terminate:
  "(serves rem self site_id drive_id folder_id ts \<and> height ts < fuel \<longrightarrow>
      (\<exists>l w'. list_folder_contents fuel rem self site_id drive_id folder_id level w = Some (Inr l, w')
          \<and> length l = count_folders ts + count_files ts)
      \<and> (\<exists>r. download_folder_contents fuel rem self site_id drive_id folder_id p level w = Some r))
   \<and> (\<forall>k. list_folder_contents k cyclic_remote self site_id drive_id folder_id level w = None)
   \<and> (no_files (disk w) \<and> directory_at (cwd w) (disk w) p = Inr d \<longrightarrow>
        (\<forall>k. download_folder_contents k cyclic_remote self site_id drive_id folder_id p level w = None))"
proof -
  have "\<exists>r. download_folder_contents fuel rem self site_id drive_id folder_id p level w = Some r"
    if sv: "serves rem self site_id drive_id folder_id ts" and h: "height ts < fuel"
  proof -
    from h obtain n where n: "fuel = Suc n" "height ts \<le> n"
      by (cases fuel) auto
    from sv obtain resp fc its where r:
      "rem (children_request self site_id drive_id folder_id) = Inr resp"
      "body_json resp = Some fc" "value_items fc = Inr its" "list_all2 represents its ts"
      "serves_nodes rem self site_id drive_id ts"
      unfolding serves_iff by blast
    let ?w1 = "w\<lparr>sent := sent w @ [children_request self site_id drive_id folder_id]\<rparr>"
    from download_loop_returns[OF r(4,5) n(2), of p level ?w1]
    obtain r1 where "download_folder_contents_loop n rem self site_id drive_id its p level ?w1 = Some r1"
      by auto
    then show ?thesis
      using r(3) fetch_children_serves[of rem self site_id drive_id folder_id resp fc w, OF r(1,2)]
      by (simp add: n(1))
  qed
  moreover have "\<exists>l w'. list_folder_contents fuel rem self site_id drive_id folder_id level w
        = Some (Inr l, w') \<and> length l = count_folders ts + count_files ts"
    if sv: "serves rem self site_id drive_id folder_id ts" and h: "height ts < fuel"
  proof -
    from h obtain n where n: "fuel = Suc n" "height ts \<le> n"
      by (cases fuel) auto
    from sv obtain resp fc its where r:
      "rem (children_request self site_id drive_id folder_id) = Inr resp"
      "body_json resp = Some fc" "value_items fc = Inr its" "list_all2 represents its ts"
      "serves_nodes rem self site_id drive_id ts"
      unfolding serves_iff by blast
    let ?w1 = "w\<lparr>sent := sent w @ [children_request self site_id drive_id folder_id]\<rparr>"
    from list_loop_serves[OF r(4,5) n(2), of level "[]" ?w1]
    obtain w2 where "list_folder_contents_loop n rem self site_id drive_id its level [] ?w1
        = Some (Inr (preorder ts), w2)" by auto
    then have "list_folder_contents fuel rem self site_id drive_id folder_id level w
        = Some (Inr (preorder ts), w2)"
      using r(3) fetch_children_serves[of rem self site_id drive_id folder_id resp fc w, OF r(1,2)]
      by (simp add: n(1))
    then show ?thesis using length_preorder by blast
  qed
  ultimately show ?thesis
    using cyclic_walk_never_returns cyclic_download_never_returns by blast
qed

theorem walk_and_download_terminate_witness:
  "serves example_remote example_client (JStr ''s1'') (JStr ''d1'') (JStr ''root'') example_tree
   \<and> height example_tree < 2
   \<and> (\<exists>l w'. list_folder_contents 2 example_remote example_client (JStr ''s1'') (JStr ''d1'')
             (JStr ''root'') 0 data_world = Some (Inr l, w') \<and> length l = 3)
   \<and> list_folder_contents 2 example_remote example_client (JStr ''s1'') (JStr ''d1'')
        (JStr ''root'') 0 data_world
      = Some (Inr [folder_entry (JStr ''Reports''),
                   file_entry (JStr ''q1.pdf'') (JStr ''application/pdf''),
                   file_entry (JStr ''readme.txt'') (JStr ''text/plain'')],
              data_world\<lparr>sent :=
                [children_request example_client (JStr ''s1'') (JStr ''d1'') (JStr ''root''),
                 children_request example_client (JStr ''s1'') (JStr ''d1'') (JStr ''a'')]\<rparr>)
   \<and> (\<exists>r. download_folder_contents 2 example_remote example_client (JStr ''s1'') (JStr ''d1'')
             (JStr ''root'') ''data'' 0 data_world = Some r)
   \<and> download_folder_contents 2 example_remote example_client (JStr ''s1'') (JStr ''d1'')
        (JStr ''root'') ''data'' 0 data_world = Some (Inr (), mirrored_world)
   \<and> no_files (disk data_world)
   \<and> directory_at (cwd data_world) (disk data_world) ''data'' = Inr [''data'']
   \<and> (\<forall>k. download_folder_contents k cyclic_remote example_client (JStr ''s1'') (JStr ''d1'')
             (JStr ''root'') ''data'' 0 data_world = None)"
proof -
  have h: "height example_tree < 2" by (simp add: example_tree_def)
  have c: "count_folders example_tree + count_files example_tree = 3"
    by (simp add: example_tree_def)
  have nf: "no_files (disk data_world)" by (simp add: no_files_def data_world_def)
  have dd: "directory_at (cwd data_world) (disk data_world) ''data'' = Inr [''data'']"
    by (simp add: directory_at_data data_world_def)
  have ev: "list_folder_contents 2 example_remote example_client (JStr ''s1'') (JStr ''d1'')
        (JStr ''root'') 0 data_world
      = Some (Inr [folder_entry (JStr ''Reports''),
                   file_entry (JStr ''q1.pdf'') (JStr ''application/pdf''),
                   file_entry (JStr ''readme.txt'') (JStr ''text/plain'')],
              data_world\<lparr>sent :=
                [children_request example_client (JStr ''s1'') (JStr ''d1'') (JStr ''root''),
                 children_request example_client (JStr ''s1'') (JStr ''d1'') (JStr ''a'')]\<rparr>)"
    by (simp add: example_remote_def example_client_def data_world_def children_url_def
        children_request_def authorized_get_def fetch_children_def requests_get_def json_of_def
        json_response_def value_items_def authorization_def numeral_2_eq_2)
  from walk_and_download_terminate[where rem = example_remote and self = example_client
      and site_id = "JStr ''s1''" and drive_id = "JStr ''d1''" and folder_id = "JStr ''root''"
      and ts = example_tree and fuel = 2 and level = 0 and w = data_world and p = "''data''"
      and d = "[''data'']"]
    example_serves h nf dd
  have "(\<exists>l w'. list_folder_contents 2 example_remote example_client (JStr ''s1'') (JStr ''d1'')
             (JStr ''root'') 0 data_world = Some (Inr l, w')
           \<and> length l = count_folders example_tree + count_files example_tree)
     \<and> (\<exists>r. download_folder_contents 2 example_remote example_client (JStr ''s1'') (JStr ''d1'')
             (JStr ''root'') ''data'' 0 data_world = Some r)
     \<and> (\<forall>k. download_folder_contents k cyclic_remote example_client (JStr ''s1'') (JStr ''d1'')
             (JStr ''root'') ''data'' 0 data_world = None)"
    by blast
  with example_serves h nf dd ev example_download show ?thesis unfolding c by blast
qed

section \<open>Downloading twice\<close>

lemma catches_up_same: "catches_up S G S \<Longrightarrow> G = S"
  unfolding catches_up_def by (rule ext) auto

lemma catches_up_end: "catches_up F G F \<longleftrightarrow> G = F"
  using catches_up_same by (auto simp: catches_up_def)

lemma catches_up_adds:
  assumes "catches_up S G F" and "adds_dirs S S'"
  shows "catches_up S' G F"
  unfolding catches_up_def
proof
  fix q
  from assms(1) have "G q = F q \<or> (G q = S q \<and> (\<exists>b. S q = Some (File b)))"
    by (simp add: catches_up_def)
  moreover from assms(2) have "S' q = S q \<or> S q = None" by (auto simp: adds_dirs_def)
  ultimately show "G q = F q \<or> (G q = S' q \<and> (\<exists>b. S' q = Some (File b)))" by auto
qed

lemma repeatableI:
  assumes "\<And>w w'. c w = Some (Inr (), w') \<Longrightarrow> grows (disk w) (disk w') \<and> cwd w' = cwd w"
      and "\<And>w g F w'. c w = Some (Inr (), w') \<Longrightarrow> cwd g = cwd w \<Longrightarrow> catches_up (disk w) (disk g) F
             \<Longrightarrow> grows (disk w') F
             \<Longrightarrow> \<exists>g'. c g = Some (Inr (), g') \<and> cwd g' = cwd g \<and> catches_up (disk w') (disk g') F"
  shows "repeatable c"
  unfolding repeatable_def using assms by blast

lemma repeatable_grows:
  "repeatable c \<Longrightarrow> c w = Some (Inr (), w') \<Longrightarrow> grows (disk w) (disk w') \<and> cwd w' = cwd w"
  unfolding repeatable_def by blast

lemma repeatable_replay:
  "repeatable c \<Longrightarrow> c w = Some (Inr (), w') \<Longrightarrow> cwd g = cwd w \<Longrightarrow> catches_up (disk w) (disk g) F
     \<Longrightarrow> grows (disk w') F
     \<Longrightarrow> \<exists>g'. c g = Some (Inr (), g') \<and> cwd g' = cwd g \<and> catches_up (disk w') (disk g') F"
  unfolding repeatable_def by blast

lemma repeatable_ensure_dir:
  assumes nm: "plain_name nm"
  shows "repeatable (\<lambda>w. Some (ensure_dir (joined p nm) w))"
proof (rule repeatableI)
  fix w w' :: world
  assume "Some (ensure_dir (joined p nm) w) = Some (Inr (), w')"
  then have ed: "ensure_dir (joined p nm) w = (Inr (), w')" by simp
  show "grows (disk w) (disk w') \<and> cwd w' = cwd w"
  proof (cases "os_path_exists (cwd w) (disk w) (joined p nm)")
    case True
    with ed show ?thesis by (simp add: ensure_dir_def grows_refl)
  next
    case False
    with ed obtain d where "os_makedirs (cwd w) (disk w) (joined p nm) = (Inr (), d)"
      and "w' = w\<lparr>disk := d\<rparr>"
      by (auto simp: ensure_dir_def split: prod.splits)
    then show ?thesis using os_makedirs_adds adds_dirs_grows by fastforce
  qed
next
  fix w g w' :: world and F :: filesystem
  assume ed0: "Some (ensure_dir (joined p nm) w) = Some (Inr (), w')" and wd: "cwd g = cwd w"
    and cu: "catches_up (disk w) (disk g) F" and gr: "grows (disk w') F"
  from ed0 have ed: "ensure_dir (joined p nm) w = (Inr (), w')" by simp
  have there: "os_path_exists (cwd w) (disk w') (joined p nm)" and ad: "adds_dirs (disk w) (disk w')"
  proof -
    show "os_path_exists (cwd w) (disk w') (joined p nm)"
    proof (cases "os_path_exists (cwd w) (disk w) (joined p nm)")
      case True
      with ed show ?thesis by (simp add: ensure_dir_def)
    next
      case False
      with ed obtain d where "os_makedirs (cwd w) (disk w) (joined p nm) = (Inr (), d)"
        and "w' = w\<lparr>disk := d\<rparr>"
        by (auto simp: ensure_dir_def split: prod.splits)
      then show ?thesis using os_makedirs_plain_exists[OF nm] by simp
    qed
    show "adds_dirs (disk w) (disk w')"
    proof (cases "os_path_exists (cwd w) (disk w) (joined p nm)")
      case True
      with ed show ?thesis by (simp add: ensure_dir_def adds_dirs_refl)
    next
      case False
      with ed obtain d where "os_makedirs (cwd w) (disk w) (joined p nm) = (Inr (), d)"
        and "w' = w\<lparr>disk := d\<rparr>"
        by (auto simp: ensure_dir_def split: prod.splits)
      then show ?thesis using os_makedirs_adds by fastforce
    qed
  qed
  from ad have "grows (disk w) (disk w')" by (rule adds_dirs_grows)
  with gr have "grows (disk w) F" using grows_trans by blast
  with cu have sh: "same_shape (disk g) F" by (rule catches_up_shape)
  from os_path_exists_grows[OF gr there] have "os_path_exists (cwd w) F (joined p nm)" .
  with sh wd have "os_path_exists (cwd g) (disk g) (joined p nm)"
    by (simp add: os_path_exists_shape)
  then have "ensure_dir (joined p nm) g = (Inr (), g)" by (simp add: ensure_dir_def)
  moreover from cu ad have "catches_up (disk w') (disk g) F" by (rule catches_up_adds)
  ultimately show "\<exists>g'. Some (ensure_dir (joined p nm) g) = Some (Inr (), g') \<and> cwd g' = cwd g
      \<and> catches_up (disk w') (disk g') F"
    by simp
qed

lemma repeatable_pure:
  assumes "\<And>w. disk (h w) = disk w" and "\<And>w. cwd (h w) = cwd w"
  shows "repeatable (\<lambda>w. Some (r, h w))"
  using assms by (intro repeatableI) (auto simp: grows_refl)

lemma repeatable_none: "repeatable (\<lambda>w. None)"
  by (simp add: repeatable_def)

lemma repeatable_after:
  assumes d: "\<And>w. disk (h w) = disk w" and c: "\<And>w. cwd (h w) = cwd w" and k: "repeatable k"
  shows "repeatable (\<lambda>w. k (h w))"
proof (rule repeatableI)
  fix w w' :: world
  assume "k (h w) = Some (Inr (), w')"
  from repeatable_grows[OF k this] d c show "grows (disk w) (disk w') \<and> cwd w' = cwd w" by simp
next
  fix w g w' :: world and F :: filesystem
  assume r: "k (h w) = Some (Inr (), w')" and wd: "cwd g = cwd w"
    and cu: "catches_up (disk w) (disk g) F" and gr: "grows (disk w') F"
  from repeatable_replay[OF k r, of "h g" F] wd cu gr d c
  show "\<exists>g'. k (h g) = Some (Inr (), g') \<and> cwd g' = cwd g \<and> catches_up (disk w') (disk g') F"
    by simp
qed

lemma repeatable_seq:
  assumes c: "repeatable c" and k: "repeatable k"
  shows "repeatable (\<lambda>w. case c w of None \<Rightarrow> None
                          | Some (Inl e, w1) \<Rightarrow> Some (Inl e, w1)
                          | Some (Inr u, w1) \<Rightarrow> k w1)"
proof (rule repeatableI)
  fix w w' :: world
  assume r: "(case c w of None \<Rightarrow> None | Some (Inl e, w1) \<Rightarrow> Some (Inl e, w1)
              | Some (Inr u, w1) \<Rightarrow> k w1) = Some (Inr (), w')"
  then obtain w1 where c1: "c w = Some (Inr (), w1)" and k1: "k w1 = Some (Inr (), w')"
    by (auto split: option.splits sum.splits)
  from repeatable_grows[OF c c1] repeatable_grows[OF k k1]
  show "grows (disk w) (disk w') \<and> cwd w' = cwd w" using grows_trans by auto
next
  fix w g w' :: world and F :: filesystem
  assume r: "(case c w of None \<Rightarrow> None | Some (Inl e, w1) \<Rightarrow> Some (Inl e, w1)
              | Some (Inr u, w1) \<Rightarrow> k w1) = Some (Inr (), w')" and wd: "cwd g = cwd w"
    and cu: "catches_up (disk w) (disk g) F" and gr: "grows (disk w') F"
  from r obtain w1 where c1: "c w = Some (Inr (), w1)" and k1: "k w1 = Some (Inr (), w')"
    by (auto split: option.splits sum.splits)
  from repeatable_grows[OF k k1] gr have g1: "grows (disk w1) F" using grows_trans by blast
  from repeatable_replay[OF c c1 wd cu g1] obtain g1 where
    cg: "c g = Some (Inr (), g1)" and wd1: "cwd g1 = cwd g" and cu1: "catches_up (disk w1) (disk g1) F"
    by blast
  from repeatable_grows[OF c c1] wd wd1 have "cwd g1 = cwd w1" by simp
  from repeatable_replay[OF k k1 this cu1 gr] obtain g' where
    "k g1 = Some (Inr (), g')" "cwd g' = cwd g1" "catches_up (disk w') (disk g') F" by blast
  with cg wd1
  show "\<exists>g'. (case c g of None \<Rightarrow> None | Some (Inl e, w1) \<Rightarrow> Some (Inl e, w1)
              | Some (Inr u, w1) \<Rightarrow> k w1) = Some (Inr (), g') \<and> cwd g' = cwd g
          \<and> catches_up (disk w') (disk g') F"
    by auto
qed

lemma repeatable_then:
  assumes "repeatable (\<lambda>w. Some (c w))" and "repeatable k"
  shows "repeatable (\<lambda>w. case c w of (Inl e, w1) \<Rightarrow> Some (Inl e, w1) | (Inr u, w1) \<Rightarrow> k w1)"
  using repeatable_seq[OF assms] by simp

lemma open_wb_write_cases:
  "open_wb_write wd f p b = Inr f' \<Longrightarrow>
     \<exists>q. path_target wd f p = Inr (Entry q) \<and> \<not> ends_with_slash p \<and> f q \<noteq> Some Dir
        \<and> f' = f(q \<mapsto> File b)"
  by (auto simp: open_wb_write_def split: sum.splits place.splits if_splits)

lemma open_wb_write_ok:
  "path_target wd f p = Inr (Entry q) \<Longrightarrow> \<not> ends_with_slash p \<Longrightarrow> f q \<noteq> Some Dir \<Longrightarrow>
   open_wb_write wd f p b = Inr (f(q \<mapsto> File b))"
  by (simp add: open_wb_write_def)

lemma repeatable_write:
  assumes h: "\<And>w. disk (h w) = disk w" and hc: "\<And>w. cwd (h w) = cwd w"
      and fin: "\<And>w d. disk (fin w d) = d" and finc: "\<And>w d. cwd (fin w d) = cwd w"
  shows "repeatable (\<lambda>w. Some (case open_wb_write (cwd (h w)) (disk (h w)) p b of
                                  Inl e \<Rightarrow> (Inl e, h w)
                                | Inr d \<Rightarrow> (Inr (), fin w d)))"
proof (rule repeatableI)
  fix w w' :: world
  assume "Some (case open_wb_write (cwd (h w)) (disk (h w)) p b of Inl e \<Rightarrow> (Inl e, h w)
                | Inr d \<Rightarrow> (Inr (), fin w d)) = Some (Inr (), w')"
  then obtain d where d: "open_wb_write (cwd w) (disk w) p b = Inr d" and w': "w' = fin w d"
    using h hc by (auto split: sum.splits)
  from open_wb_write_cases[OF d] obtain q where "disk w q \<noteq> Some Dir" "d = (disk w)(q \<mapsto> File b)"
    by blast
  then have "grows (disk w) d" by (auto simp: grows_def)
  with w' fin finc show "grows (disk w) (disk w') \<and> cwd w' = cwd w" by simp
next
  fix w g w' :: world and F :: filesystem
  assume r: "Some (case open_wb_write (cwd (h w)) (disk (h w)) p b of Inl e \<Rightarrow> (Inl e, h w)
                | Inr d \<Rightarrow> (Inr (), fin w d)) = Some (Inr (), w')" and wd: "cwd g = cwd w"
    and cu: "catches_up (disk w) (disk g) F" and gr: "grows (disk w') F"
  from r obtain d where d: "open_wb_write (cwd w) (disk w) p b = Inr d" and w': "w' = fin w d"
    using h hc by (auto split: sum.splits)
  from open_wb_write_cases[OF d] obtain q where q: "path_target (cwd w) (disk w) p = Inr (Entry q)"
    and ns: "\<not> ends_with_slash p" and nd: "disk w q \<noteq> Some Dir" and dq: "d = (disk w)(q \<mapsto> File b)"
    by blast
  from nd dq have g0: "grows (disk w) d" by (auto simp: grows_def)
  from gr w' fin have gF: "grows d F" by simp
  from g0 gF have "grows (disk w) F" using grows_trans by blast
  with cu have sh: "same_shape (disk g) F" by (rule catches_up_shape)
  from path_target_grows[OF \<open>grows (disk w) F\<close> q] have "path_target (cwd w) F p = Inr (Entry q)" .
  with sh wd have tg: "path_target (cwd g) (disk g) p = Inr (Entry q)"
    by (simp add: path_target_shape)
  from gF dq obtain b' where "F q = Some (File b')" unfolding grows_def by fastforce
  with sh have gq: "disk g q \<noteq> Some Dir" by (auto simp: same_shape_def)
  from open_wb_write_ok[OF tg ns gq, of b]
  have wg: "open_wb_write (cwd g) (disk g) p b = Inr ((disk g)(q \<mapsto> File b))" .
  have "catches_up d ((disk g)(q \<mapsto> File b)) F"
    unfolding catches_up_def
  proof
    fix q'
    from cu have "disk g q' = F q' \<or> (disk g q' = disk w q' \<and> (\<exists>c. disk w q' = Some (File c)))"
      unfolding catches_up_def by blast
    then show "((disk g)(q \<mapsto> File b)) q' = F q'
        \<or> (((disk g)(q \<mapsto> File b)) q' = d q' \<and> (\<exists>c. d q' = Some (File c)))"
      using dq by auto
  qed
  then have "catches_up (disk w') (disk (fin g ((disk g)(q \<mapsto> File b)))) F"
    using w' fin by simp
  moreover have "(case open_wb_write (cwd (h g)) (disk (h g)) p b of Inl e \<Rightarrow> (Inl e, h g)
                | Inr d \<Rightarrow> (Inr (), fin g d)) = (Inr (), fin g ((disk g)(q \<mapsto> File b)))"
    using wg h hc by simp
  ultimately show "\<exists>g'. Some (case open_wb_write (cwd (h g)) (disk (h g)) p b of Inl e \<Rightarrow> (Inl e, h g)
                | Inr d \<Rightarrow> (Inr (), fin g d)) = Some (Inr (), g') \<and> cwd g' = cwd g
          \<and> catches_up (disk w') (disk g') F"
    using finc by auto
qed

lemma repeatable_download_file:
  "repeatable (\<lambda>w. Some (download_file rem self u p nm w))"
proof (cases "rem (authorized_get self u)")
  case (Inl e)
  then have "(\<lambda>w. Some (download_file rem self u p nm w))
      = (\<lambda>w. Some (Inl e, w\<lparr>sent := sent w @ [authorized_get self u]\<rparr>))"
    by (simp add: download_file_def requests_get_def authorized_get_def fun_eq_iff)
  then show ?thesis using repeatable_pure[of "\<lambda>w. w\<lparr>sent := sent w @ [authorized_get self u]\<rparr>" "Inl e"]
    by simp
next
  case (Inr resp)
  show ?thesis
  proof (cases "status_code resp = 200")
    case False
    with Inr have "(\<lambda>w. Some (download_file rem self u p nm w))
      = (\<lambda>w. Some (Inr (), w\<lparr>sent := sent w @ [authorized_get self u],
                               stdout := stdout w @ [failure_line nm resp]\<rparr>))"
      by (simp add: download_file_def requests_get_def authorized_get_def failure_line_def fun_eq_iff)
    then show ?thesis
      using repeatable_pure[of "\<lambda>w. w\<lparr>sent := sent w @ [authorized_get self u],
                               stdout := stdout w @ [failure_line nm resp]\<rparr>" "Inr ()"]
      by simp
  next
    case True
    show ?thesis
    proof (cases "os_path_join p nm")
      case (Inl e)
      with True Inr have "(\<lambda>w. Some (download_file rem self u p nm w))
        = (\<lambda>w. Some (Inl e, w\<lparr>sent := sent w @ [authorized_get self u]\<rparr>))"
        by (simp add: download_file_def requests_get_def authorized_get_def fun_eq_iff)
      then show ?thesis
        using repeatable_pure[of "\<lambda>w. w\<lparr>sent := sent w @ [authorized_get self u]\<rparr>" "Inl e"]
        by simp
    next
      case (Inr full_path)
      let ?h = "\<lambda>w. w\<lparr>sent := sent w @ [authorized_get self u]\<rparr>"
      from Inr True \<open>rem (authorized_get self u) = Inr resp\<close>
      have "(\<lambda>w. Some (download_file rem self u p nm w))
        = (\<lambda>w. Some (case open_wb_write (cwd (?h w)) (disk (?h w)) full_path (content resp) of
                        Inl e \<Rightarrow> (Inl e, ?h w)
                      | Inr d \<Rightarrow> (Inr (), w\<lparr>sent := sent w @ [authorized_get self u], disk := d,
                            stdout := stdout w @ [''File downloaded: '' @ full_path]\<rparr>)))"
        by (auto simp add: download_file_def requests_get_def authorized_get_def fun_eq_iff
            split: sum.splits)
      then show ?thesis
        using repeatable_write[of ?h
            "\<lambda>w d. w\<lparr>sent := sent w @ [authorized_get self u], disk := d,
                            stdout := stdout w @ [''File downloaded: '' @ full_path]\<rparr>"
            full_path "content resp"]
        by simp
    qed
  qed
qed

lemma repeatable_loop:
  "list_all2 represents items ts \<Longrightarrow> serves_nodes rem self site_id drive_id ts \<Longrightarrow> plain_folders ts \<Longrightarrow>
   repeatable (download_folder_contents_loop n rem self site_id drive_id items p level)"
proof (induction ts arbitrary: items n p level rule: preorder.induct)
  case 1
  then have "download_folder_contents_loop n rem self site_id drive_id items p level
      = (\<lambda>w. Some (Inr (), w))" by (intro ext) simp
  then show ?case using repeatable_pure[of "\<lambda>w. w" "Inr ()"] by simp
next
  case (2 i nm mt ts)
  then obtain item rest where it: "items = item # rest" "represents item (RFile i nm mt)"
     "list_all2 represents rest ts"
    by (auto simp: list_all2_Cons2)
  let ?rest = "download_folder_contents_loop n rem self site_id drive_id rest p level"
  from 2(1)[OF it(3), of n p level] 2(3,4) have rest: "repeatable ?rest" by simp
  from it(1,2) have "download_folder_contents_loop n rem self site_id drive_id items p level
      = (\<lambda>w. case download_file rem self (file_download_url site_id drive_id (JStr i)) p (JStr nm) w of
                (Inl e', w1) \<Rightarrow> Some (Inl e', w1)
              | (Inr u, w1) \<Rightarrow> ?rest w1)"
    by (intro ext) simp
  then show ?case
    using repeatable_then[OF repeatable_download_file[of rem self
          "file_download_url site_id drive_id (JStr i)" p "JStr nm"] rest]
    by simp
next
  case (3 i nm cs ts)
  then obtain item rest where it: "items = item # rest" "represents item (RFolder i nm cs)"
     "list_all2 represents rest ts"
    by (auto simp: list_all2_Cons2)
  from 3(4) have sv: "serves rem self site_id drive_id (JStr i) cs"
    and svn: "serves_nodes rem self site_id drive_id ts" by auto
  from 3(5) have nm: "plain_name nm" and pc: "plain_folders cs" and pt: "plain_folders ts"
    by simp_all
  from sv obtain resp fc its where r: "rem (children_request self site_id drive_id (JStr i)) = Inr resp"
     "body_json resp = Some fc" "value_items fc = Inr its" "list_all2 represents its cs"
     "serves_nodes rem self site_id drive_id cs"
    unfolding serves_iff by blast
  let ?rest = "download_folder_contents_loop n rem self site_id drive_id rest p level"
  let ?sub = "download_folder_contents n rem self site_id drive_id (JStr i) (joined p nm) (level + 1)"
  from 3(2)[OF it(3) svn pt, of n p level] have rest: "repeatable ?rest" .
  have sub: "repeatable ?sub"
  proof (cases n)
    case 0
    then have "?sub = (\<lambda>w. None)" by (intro ext) simp
    then show ?thesis using repeatable_none by simp
  next
    case (Suc m)
    let ?h = "\<lambda>w. w\<lparr>sent := sent w @ [children_request self site_id drive_id (JStr i)]\<rparr>"
    from Suc r(3) have "?sub
        = (\<lambda>w. download_folder_contents_loop m rem self site_id drive_id its (joined p nm) (level + 1) (?h w))"
      using fetch_children_serves[of rem self site_id drive_id "JStr i" resp fc, OF r(1,2)]
      by (intro ext) simp
    then show ?thesis
      using repeatable_after[of ?h, OF _ _ 3(1)[OF r(4,5) pc, of m "joined p nm" "level + 1"]]
      by simp
  qed
  from it(1,2) os_path_join_plain[OF nm, of p]
  have "download_folder_contents_loop n rem self site_id drive_id items p level
      = (\<lambda>w. case ensure_dir (joined p nm) w of
                (Inl e', w1) \<Rightarrow> Some (Inl e', w1)
              | (Inr u, w1) \<Rightarrow>
                  (case ?sub w1 of None \<Rightarrow> None
                   | Some (Inl e, w2) \<Rightarrow> Some (Inl e, w2)
                   | Some (Inr u2, w2) \<Rightarrow> ?rest w2))"
    by (intro ext) (simp split: prod.splits sum.splits del: download_folder_contents.simps)
  then show ?case
    using repeatable_then[OF repeatable_ensure_dir[OF nm, of p] repeatable_seq[OF sub rest]]
    by simp
qed

lemma repeatable_download_folder_contents:
  assumes "serves rem self site_id drive_id folder_id ts" and "plain_folders ts"
  shows "repeatable (download_folder_contents fuel rem self site_id drive_id folder_id p level)"
proof (cases fuel)
  case 0
  then have "download_folder_contents fuel rem self site_id drive_id folder_id p level = (\<lambda>w. None)"
    by (intro ext) simp
  then show ?thesis using repeatable_none by simp
next
  case (Suc n)
  from assms(1) obtain resp fc its where r:
    "rem (children_request self site_id drive_id folder_id) = Inr resp"
    "body_json resp = Some fc" "value_items fc = Inr its" "list_all2 represents its ts"
    "serves_nodes rem self site_id drive_id ts"
    unfolding serves_iff by blast
  let ?h = "\<lambda>w. w\<lparr>sent := sent w @ [children_request self site_id drive_id folder_id]\<rparr>"
  from Suc r(3) have "download_folder_contents fuel rem self site_id drive_id folder_id p level
      = (\<lambda>w. download_folder_contents_loop n rem self site_id drive_id its p level (?h w))"
    using fetch_children_serves[of rem self site_id drive_id folder_id resp fc, OF r(1,2)]
    by (intro ext) simp
  then show ?thesis
    using repeatable_after[of ?h, OF _ _ repeatable_loop[OF r(4,5) assms(2), of n p level]]
    by simp
qed

lemma makedirs_into_missing_parent:
  "os_makedirs [] [[''data''] \<mapsto> Dir] ''data/Reports/../Reports''
     = (Inl FileExistsError, [[''data''] \<mapsto> Dir, [''data'', ''Reports''] \<mapsto> Dir])"
  by (simp add: os_makedirs.simps[of _ _ "''data/Reports/../Reports''"]
      os_makedirs.simps[of _ _ "''data/Reports/..''"] os_makedirs.simps[of _ _ "''data/Reports''"]
      makedirs_parts_def path_split_def rstrip_slash_def os_path_exists_def os_mkdir_def
      path_target_def components_def start_dir_def ends_with_slash_def Let_def)

lemma makedirs_through_file:
  "os_makedirs [] [[''data''] \<mapsto> Dir, [''data'', ''file''] \<mapsto> File ''old''] ''data/n/../file/.''
     = (Inr (), [[''data''] \<mapsto> Dir, [''data'', ''file''] \<mapsto> File ''old'', [''data'', ''n''] \<mapsto> Dir])
   \<and> os_makedirs []
       [[''data''] \<mapsto> Dir, [''data'', ''file''] \<mapsto> File ''old'', [''data'', ''n''] \<mapsto> Dir]
       ''data/n/../file/.''
     = (Inl NotADirectoryError,
        [[''data''] \<mapsto> Dir, [''data'', ''file''] \<mapsto> File ''old'', [''data'', ''n''] \<mapsto> Dir])"
  by (simp add: os_makedirs.simps[of _ _ "''data/n/../file/.''"]
      os_makedirs.simps[of _ _ "''data/n/../file''"] os_makedirs.simps[of _ _ "''data/n/..''"]
      os_makedirs.simps[of _ _ "''data/n''"]
      makedirs_parts_def path_split_def rstrip_slash_def os_path_exists_def os_mkdir_def
      path_target_def components_def start_dir_def ends_with_slash_def Let_def)

lemma dotted_serves:
  "serves dotted_remote example_client (JStr ''s1'') (JStr ''d1'') (JStr ''root'') dotted_tree"
  by (simp add: dotted_remote_def dotted_tree_def dotted_item_def children_request_def
      authorized_get_def children_url_def json_response_def value_items_def)

text \<open>
  Claim C6 says that running the download twice leaves what running it once leaves, for
  every remote tree. That fails in two ways.

  When the first run does not get through: for the example of the specification and the
  local path \<^verbatim>\<open>data/Reports/..\<close>, with \<^verbatim>\<open>data\<close> there and \<^verbatim>\<open>data/Reports\<close> not,
  \<^verbatim>\<open>os.path.exists('data/Reports/../Reports')\<close> is false, \<^verbatim>\<open>os.makedirs\<close> makes \<^verbatim>\<open>data/Reports\<close>
  on its way and then raises \<^verbatim>\<open>FileExistsError\<close>, and the first run ends there with no file
  written. The second run finds the directory, returns normally and writes both files.

  When a folder name is not a single path component: for the folder \<^verbatim>\<open>n/../file/.\<close> and the
  local path \<^verbatim>\<open>data\<close>, in which \<^verbatim>\<open>file\<close> is a file, \<^verbatim>\<open>os.makedirs\<close> makes \<^verbatim>\<open>data/n\<close>, swallows
  the \<^verbatim>\<open>FileExistsError\<close> of the inner call and returns, and the first run returns normally.
  In the second run the path still does not exist, \<^verbatim>\<open>os.makedirs\<close> now goes straight to
  \<^verbatim>\<open>mkdir\<close>, and the run raises \<^verbatim>\<open>NotADirectoryError\<close>.
\<close>

theorem second_run_can_differ:
  "download_folder_contents 2 example_remote example_client (JStr ''s1'') (JStr ''d1'')
     (JStr ''root'') ''data/Reports/..'' 0 data_world = Some (Inl FileExistsError, interrupted_world)
   \<and> download_folder_contents 2 example_remote example_client (JStr ''s1'') (JStr ''d1'')
     (JStr ''root'') ''data/Reports/..'' 0 interrupted_world = Some (Inr (), resumed_world)
   \<and> disk interrupted_world [''data'', ''readme.txt''] = None
   \<and> disk resumed_world [''data'', ''readme.txt''] = Some (File ''read me'')
   \<and> disk interrupted_world [''data'', ''Reports'', ''q1.pdf''] = None
   \<and> disk resumed_world [''data'', ''Reports'', ''q1.pdf''] = Some (File ''%PDF-1.7'')
   \<and> serves dotted_remote example_client (JStr ''s1'') (JStr ''d1'') (JStr ''root'') dotted_tree
   \<and> download_folder_contents 2 dotted_remote example_client (JStr ''s1'') (JStr ''d1'')
     (JStr ''root'') ''data'' 0 file_world = Some (Inr (), file_world_once)
   \<and> download_folder_contents 2 dotted_remote example_client (JStr ''s1'') (JStr ''d1'')
     (JStr ''root'') ''data'' 0 file_world_once = Some (Inl NotADirectoryError, file_world_twice)"
proof -
  note defs = file_download_url_def resource_def example_remote_def
      example_client_def data_world_def children_url_def children_request_def authorized_get_def
      fetch_children_def requests_get_def json_of_def
      json_response_def value_items_def os_path_join_def ensure_dir_def os_path_exists_def
      path_target_def components_def start_dir_def ends_with_slash_def
      download_file_def open_wb_write_def authorization_def numeral_2_eq_2 Let_def
  have "download_folder_contents 2 example_remote example_client (JStr ''s1'') (JStr ''d1'')
     (JStr ''root'') ''data/Reports/..'' 0 data_world = Some (Inl FileExistsError, interrupted_world)"
    by (simp add: defs interrupted_world_def makedirs_into_missing_parent)
  moreover have "download_folder_contents 2 example_remote example_client (JStr ''s1'') (JStr ''d1'')
     (JStr ''root'') ''data/Reports/..'' 0 interrupted_world = Some (Inr (), resumed_world)"
    by (simp add: defs interrupted_world_def resumed_world_def)
  moreover have "download_folder_contents 2 dotted_remote example_client (JStr ''s1'') (JStr ''d1'')
     (JStr ''root'') ''data'' 0 file_world = Some (Inr (), file_world_once)"
    by (simp add: defs dotted_remote_def dotted_item_def file_world_def file_world_once_def
        makedirs_through_file)
  moreover have "download_folder_contents 2 dotted_remote example_client (JStr ''s1'') (JStr ''d1'')
     (JStr ''root'') ''data'' 0 file_world_once = Some (Inl NotADirectoryError, file_world_twice)"
    by (simp add: defs dotted_remote_def dotted_item_def file_world_once_def file_world_twice_def
        makedirs_through_file)
  ultimately show ?thesis using dotted_serves by (simp add: interrupted_world_def resumed_world_def)
qed

text \<open>
  Claim C6, as the code has it. Let the remote side serve a finite tree whose folder
  names are plain, and let a first run of \<^verbatim>\<open>download_folder_contents\<close> return normally.
  Then a second run against the same remote side, started on the world that the first run
  left, returns normally too and leaves the local disk exactly as the first run left it:
  the same directories, the same files, the same bytes. A directory that exists already
  is not an error for the loop, and writing a file puts the new bytes at the one place
  that its path names, whatever file was there.
\<close>

theorem download_twice_same_disk:
  "(serves rem self site_id drive_id folder_id ts \<and> plain_folders ts
      \<and> download_folder_contents fuel rem self site_id drive_id folder_id local_folder_path level w
          = Some (Inr (), w') \<longrightarrow>
      (\<exists>w''. download_folder_contents fuel rem self site_id drive_id folder_id local_folder_path level w'
               = Some (Inr (), w'') \<and> disk w'' = disk w'))
   \<and> (os_path_exists (cwd v) (disk v) new_path \<longrightarrow> ensure_dir new_path v = (Inr (), v))
   \<and> (open_wb_write wd f full_path bytes = Inr f' \<longrightarrow>
        (\<exists>q. path_target wd f full_path = Inr (Entry q) \<and> f' = f(q \<mapsto> File bytes)))"
proof (intro conjI impI)
  assume a: "serves rem self site_id drive_id folder_id ts \<and> plain_folders ts
      \<and> download_folder_contents fuel rem self site_id drive_id folder_id local_folder_path level w
          = Some (Inr (), w')"
  then have rp: "repeatable (download_folder_contents fuel rem self site_id drive_id folder_id
      local_folder_path level)"
    using repeatable_download_folder_contents by blast
  from a have run: "download_folder_contents fuel rem self site_id drive_id folder_id
      local_folder_path level w = Some (Inr (), w')" by simp
  have "catches_up (disk w) (disk w') (disk w')" by (simp add: catches_up_def)
  from repeatable_replay[OF rp run _ this grows_refl] repeatable_grows[OF rp run]
  obtain g' where "download_folder_contents fuel rem self site_id drive_id folder_id
      local_folder_path level w' = Some (Inr (), g')" "catches_up (disk w') (disk g') (disk w')"
    by auto
  then show "\<exists>w''. download_folder_contents fuel rem self site_id drive_id folder_id
      local_folder_path level w' = Some (Inr (), w'') \<and> disk w'' = disk w'"
    using catches_up_end by blast
next
  assume "os_path_exists (cwd v) (disk v) new_path"
  then show "ensure_dir new_path v = (Inr (), v)" by (simp add: ensure_dir_def)
next
  assume "open_wb_write wd f full_path bytes = Inr f'"
  then show "\<exists>q. path_target wd f full_path = Inr (Entry q) \<and> f' = f(q \<mapsto> File bytes)"
    using open_wb_write_cases by blast
qed

theorem download_twice_same_disk_witness:
  "serves example_remote example_client (JStr ''s1'') (JStr ''d1'') (JStr ''root'') example_tree
   \<and> plain_folders example_tree
   \<and> download_folder_contents 2 example_remote example_client (JStr ''s1'') (JStr ''d1'')
     (JStr ''root'') ''data'' 0 data_world = Some (Inr (), mirrored_world)
   \<and> (\<exists>w''. download_folder_contents 2 example_remote example_client (JStr ''s1'') (JStr ''d1'')
              (JStr ''root'') ''data'' 0 mirrored_world = Some (Inr (), w'')
            \<and> disk w'' = disk mirrored_world)
   \<and> os_path_exists (cwd mirrored_world) (disk mirrored_world) ''data/Reports''
   \<and> ensure_dir ''data/Reports'' mirrored_world = (Inr (), mirrored_world)
   \<and> open_wb_write [] (disk mirrored_world) ''data/readme.txt'' ''new''
       = Inr ((disk mirrored_world)([''data'', ''readme.txt''] \<mapsto> File ''new''))
   \<and> (\<exists>q. path_target [] (disk mirrored_world) ''data/readme.txt'' = Inr (Entry q)
          \<and> (disk mirrored_world)([''data'', ''readme.txt''] \<mapsto> File ''new'')
              = (disk mirrored_world)(q \<mapsto> File ''new''))"
proof -
  have pf: "plain_folders example_tree" by (simp add: example_tree_def plain_name_def)
  have h1: "os_path_exists (cwd mirrored_world) (disk mirrored_world) ''data/Reports''"
    by (simp add: os_path_exists_def path_target_def components_def start_dir_def
        mirrored_world_def)
  have h2: "open_wb_write [] (disk mirrored_world) ''data/readme.txt'' ''new''
       = Inr ((disk mirrored_world)([''data'', ''readme.txt''] \<mapsto> File ''new''))"
    by (simp add: open_wb_write_def path_target_def components_def start_dir_def
        ends_with_slash_def mirrored_world_def)
  from download_twice_same_disk[where fuel = 2 and rem = example_remote and self = example_client
      and site_id = "JStr ''s1''" and drive_id = "JStr ''d1''" and folder_id = "JStr ''root''"
      and ts = example_tree
      and local_folder_path = "''data''" and level = 0 and w = data_world
      and w' = mirrored_world and v = mirrored_world and new_path = "''data/Reports''"
      and wd = "[]" and f = "disk mirrored_world" and full_path = "''data/readme.txt''"
      and bytes = "''new''"
      and f' = "(disk mirrored_world)([''data'', ''readme.txt''] \<mapsto> File ''new'')"]
    example_serves pf example_download h1 h2
  show ?thesis by blast
qed

section \<open>The download mirrors the tree\<close>

lemma image_nil [simp]: "local_image rem self site_id drive_id ts [] = None"
  by (induction ts rule: preorder.induct) auto

lemma image_absent:
  "c \<notin> set (map node_name ts) \<Longrightarrow> local_image rem self site_id drive_id ts (c # q) = None"
  by (induction ts rule: preorder.induct) auto

lemma directory_at_grows:
  "grows S F \<Longrightarrow> directory_at wd S p = Inr d \<Longrightarrow> directory_at wd F p = Inr d"
  by (auto simp: directory_at_def split: if_splits intro: walk_grows)

lemma mirrors_nothing: "mirrors rq (\<lambda>q. None) f f"
  by (simp add: mirrors_def)

lemma mirrors_first:
  assumes m: "mirrors rq img f1 f'" and none: "img [nm] = None"
      and f1: "f1 = (case X of None \<Rightarrow> f | Some nd \<Rightarrow> f(rq @ [nm] \<mapsto> nd))"
  shows "mirrors rq (\<lambda>q. if q = [nm] then X else img q) f f'"
  unfolding mirrors_def
proof (intro conjI allI impI)
  fix q
  from m have m1: "f' (rq @ q) = (case img q of None \<Rightarrow> f1 (rq @ q) | Some nd \<Rightarrow> Some nd)"
    by (simp add: mirrors_def)
  show "f' (rq @ q) = (case if q = [nm] then X else img q of None \<Rightarrow> f (rq @ q) | Some nd \<Rightarrow> Some nd)"
  proof (cases "q = [nm]")
    case True
    with m1 none f1 show ?thesis by (cases X) auto
  next
    case False
    then have "f1 (rq @ q) = f (rq @ q)" using f1 by (cases X) auto
    with m1 False show ?thesis by (simp split: option.splits)
  qed
next
  fix q' assume np: "\<not> prefix rq q'"
  then have "q' \<noteq> rq @ [nm]" by auto
  then have "f1 q' = f q'" using f1 by (cases X) auto
  with m np show "f' q' = f q'" by (simp add: mirrors_def)
qed

lemma mirrors_folder:
  assumes sub: "mirrors (rq @ [nm]) imgc f1 f2" and rest: "mirrors rq img f2 f'"
      and f1: "f1 = f(rq @ [nm] \<mapsto> Dir)"
      and img_nm: "\<And>q. img (nm # q) = None" and img_nil: "img [] = None"
      and imgc_nil: "imgc [] = None"
  shows "mirrors rq (\<lambda>q. case q of [] \<Rightarrow> None
                        | c # q' \<Rightarrow> if c = nm then (if q' = [] then Some Dir else imgc q') else img q)
           f f'"
  unfolding mirrors_def
proof (intro conjI allI impI)
  fix q
  from rest have r1: "f' (rq @ q) = (case img q of None \<Rightarrow> f2 (rq @ q) | Some nd \<Rightarrow> Some nd)"
    by (simp add: mirrors_def)
  show "f' (rq @ q) = (case (case q of [] \<Rightarrow> None
                        | c # q' \<Rightarrow> if c = nm then (if q' = [] then Some Dir else imgc q') else img q)
                       of None \<Rightarrow> f (rq @ q) | Some nd \<Rightarrow> Some nd)"
  proof (cases q)
    case Nil
    have "\<not> prefix (rq @ [nm]) rq" by (auto simp: prefix_def)
    with sub have "f2 rq = f1 rq" by (simp add: mirrors_def)
    with r1 Nil img_nil f1 show ?thesis by (simp split: option.splits)
  next
    case (Cons c q')
    show ?thesis
    proof (cases "c = nm")
      case True
      from sub have "f2 ((rq @ [nm]) @ q') = (case imgc q' of None \<Rightarrow> f1 ((rq @ [nm]) @ q') | Some nd \<Rightarrow> Some nd)"
        unfolding mirrors_def by blast
      then have s1: "f2 (rq @ nm # q') = (case imgc q' of None \<Rightarrow> f1 (rq @ nm # q') | Some nd \<Rightarrow> Some nd)"
        by (simp split: option.splits)
      show ?thesis
      proof (cases "q' = []")
        case True
        with s1 r1 Cons \<open>c = nm\<close> img_nm imgc_nil f1 show ?thesis by (simp split: option.splits)
      next
        case False
        then have "f1 (rq @ nm # q') = f (rq @ nm # q')" using f1 by simp
        with s1 r1 Cons \<open>c = nm\<close> img_nm False show ?thesis by (simp split: option.splits)
      qed
    next
      case False
      then have "\<not> prefix (rq @ [nm]) (rq @ c # q')" by (auto simp: prefix_def)
      with sub have "f2 (rq @ c # q') = f1 (rq @ c # q')" by (simp add: mirrors_def)
      moreover have "f1 (rq @ c # q') = f (rq @ c # q')" using f1 False by simp
      ultimately show ?thesis using r1 Cons False by (simp split: option.splits)
    qed
  qed
next
  fix q' assume np: "\<not> prefix rq q'"
  then have "\<not> prefix (rq @ [nm]) q'" by (auto simp: prefix_def)
  with sub have "f2 q' = f1 q'" by (simp add: mirrors_def)
  moreover from np have "q' \<noteq> rq @ [nm]" by auto
  then have "f1 q' = f q'" using f1 by simp
  ultimately show "f' q' = f q'" using rest np by (simp add: mirrors_def)
qed

lemma mirrors_grows:
  assumes m: "mirrors rq img f f'" and free: "\<And>q. img q \<noteq> None \<Longrightarrow> f (rq @ q) = None"
  shows "grows f f'"
proof -
  have "f' q' = f q' \<or> f q' = None" for q'
  proof (cases "prefix rq q'")
    case True
    then obtain q where q: "q' = rq @ q" by (auto simp: prefix_def)
    from m have "f' (rq @ q) = (case img q of None \<Rightarrow> f (rq @ q) | Some nd \<Rightarrow> Some nd)"
      by (simp add: mirrors_def)
    with free[of q] q show ?thesis by (cases "img q") auto
  next
    case False
    with m show ?thesis by (simp add: mirrors_def)
  qed
  then show ?thesis unfolding grows_def by (metis option.distinct(1))
qed

lemma mirrors_keeps_free:
  assumes "mirrors (rq @ [nm]) imgc f1 f2" and "c \<noteq> nm"
  shows "f2 (rq @ c # q) = f1 (rq @ c # q)"
proof -
  from assms(2) have "\<not> prefix (rq @ [nm]) (rq @ c # q)" by (auto simp: prefix_def)
  with assms(1) show ?thesis by (simp add: mirrors_def)
qed

lemma download_file_at:
  assumes nm: "plain_name nm"
      and resp: "rem (content_request self site_id drive_id i) = Inr resp"
      and dir: "directory_at (cwd w) (disk w) p = Inr rq"
      and free: "disk w (rq @ [nm]) = None"
  shows "\<exists>w1. download_file rem self (file_download_url site_id drive_id (JStr i)) p (JStr nm) w
              = (Inr (), w1)
          \<and> cwd w1 = cwd w
          \<and> disk w1 = (case (if status_code resp = 200 then Some (File (content resp)) else None) of
                         None \<Rightarrow> disk w | Some nd \<Rightarrow> (disk w)(rq @ [nm] \<mapsto> nd))
          \<and> stdout w1 = stdout w @ [if status_code resp = 200 then ''File downloaded: '' @ joined p nm
                                       else failure_line (JStr nm) resp]"
proof (cases "status_code resp = 200")
  case False
  with resp show ?thesis
    by (simp add: download_file_def requests_get_def content_request_def authorized_get_def
        failure_line_def)
next
  case True
  from open_wb_write_joined[OF nm dir, of "content resp"] free
  have "open_wb_write (cwd w) (disk w) (joined p nm) (content resp)
      = Inr ((disk w)(rq @ [nm] \<mapsto> File (content resp)))" by simp
  with True resp show ?thesis
    by (simp add: download_file_def requests_get_def content_request_def authorized_get_def
        os_path_join_plain[OF nm])
qed

lemma download_loop_image:
  "list_all2 represents items ts \<Longrightarrow> serves_nodes rem self site_id drive_id ts \<Longrightarrow> height ts \<le> n \<Longrightarrow>
   wf_names ts \<Longrightarrow> answered rem self site_id drive_id ts \<Longrightarrow>
   directory_at (cwd w) (disk w) p = Inr rq \<Longrightarrow>
   (\<forall>t\<in>set ts. \<forall>q. disk w (rq @ node_name t # q) = None) \<Longrightarrow>
   \<exists>w'. download_folder_contents_loop n rem self site_id drive_id items p level w = Some (Inr (), w')
      \<and> cwd w' = cwd w
      \<and> mirrors rq (local_image rem self site_id drive_id ts) (disk w) (disk w')
      \<and> stdout w' = stdout w @ printed rem self site_id drive_id p ts"
proof (induction ts arbitrary: items n p rq level w rule: preorder.induct)
  case 1
  have "local_image rem self site_id drive_id [] = (\<lambda>q. None)" by (rule ext) simp
  with 1 show ?case by (simp add: mirrors_nothing)
next
  case (2 i nm mt ts)
  from 2(2) obtain item rest where it: "items = item # rest" "represents item (RFile i nm mt)"
     "list_all2 represents rest ts"
    by (auto simp: list_all2_Cons2)
  from 2(5) have nm: "plain_name nm" and fresh: "nm \<notin> set (map node_name ts)" and wf: "wf_names ts"
    by simp_all
  from 2(6) obtain resp where resp: "rem (content_request self site_id drive_id i) = Inr resp"
    and ans: "answered rem self site_id drive_id ts"
    by (cases "rem (content_request self site_id drive_id i)") auto
  let ?X = "if status_code resp = 200 then Some (File (content resp)) else None"
  from 2(8) have free0: "disk w (rq @ [nm]) = None" by simp
  from download_file_at[where rem = rem and self = self and site_id = site_id
      and drive_id = drive_id and i = i and resp = resp and w = w and p = p and nm = nm
      and rq = rq]
    nm resp 2(7) free0
  obtain w1 where df: "download_file rem self (file_download_url site_id drive_id (JStr i)) p (JStr nm) w
              = (Inr (), w1)"
    and c1: "cwd w1 = cwd w"
    and d1: "disk w1 = (case ?X of None \<Rightarrow> disk w | Some nd \<Rightarrow> (disk w)(rq @ [nm] \<mapsto> nd))"
    and s1: "stdout w1 = stdout w @ [if status_code resp = 200 then ''File downloaded: '' @ joined p nm
                                       else failure_line (JStr nm) resp]"
    by blast
  have "grows (disk w) (disk w1)" using d1 free0 by (auto simp: grows_def)
  from directory_at_grows[OF this 2(7)] c1
  have dir1: "directory_at (cwd w1) (disk w1) p = Inr rq" by simp
  have free1: "\<forall>t\<in>set ts. \<forall>q. disk w1 (rq @ node_name t # q) = None"
  proof (intro ballI allI)
    fix t q assume t: "t \<in> set ts"
    with fresh have "node_name t \<noteq> nm" by auto
    then have "disk w1 (rq @ node_name t # q) = disk w (rq @ node_name t # q)"
      using d1 by simp
    with 2(8) t show "disk w1 (rq @ node_name t # q) = None" by simp
  qed
  from 2(1)[OF it(3) _ _ wf ans dir1 free1, of n level] 2(3,4)
  obtain w' where rest: "download_folder_contents_loop n rem self site_id drive_id rest p level w1
        = Some (Inr (), w')"
    and c': "cwd w' = cwd w1"
    and m: "mirrors rq (local_image rem self site_id drive_id ts) (disk w1) (disk w')"
    and s': "stdout w' = stdout w1 @ printed rem self site_id drive_id p ts"
    by auto
  have img: "local_image rem self site_id drive_id (RFile i nm mt # ts)
      = (\<lambda>q. if q = [nm] then ?X else local_image rem self site_id drive_id ts q)"
    using resp by (intro ext) simp
  have "mirrors rq (local_image rem self site_id drive_id (RFile i nm mt # ts)) (disk w) (disk w')"
    unfolding img
    by (rule mirrors_first[OF m image_absent[OF fresh] d1])
  moreover have "download_folder_contents_loop n rem self site_id drive_id items p level w
      = Some (Inr (), w')"
    using it(1,2) df rest by simp
  moreover have "stdout w' = stdout w @ printed rem self site_id drive_id p (RFile i nm mt # ts)"
    using s' s1 resp by simp
  moreover have "cwd w' = cwd w" using c' c1 by simp
  ultimately show ?case by blast
next
  case (3 i nm cs ts)
  let ?np = "joined p nm"
  from 3(3) obtain item rest where it: "items = item # rest" "represents item (RFolder i nm cs)"
     "list_all2 represents rest ts"
    by (auto simp: list_all2_Cons2)
  from 3(4) have sv: "serves rem self site_id drive_id (JStr i) cs"
    and svn: "serves_nodes rem self site_id drive_id ts" by auto
  from 3(5) obtain m where n: "n = Suc m" "height cs \<le> m" "height ts \<le> n"
    by (cases n) auto
  from 3(6) have nm: "plain_name nm" and fresh: "nm \<notin> set (map node_name ts)"
    and wfc: "wf_names cs" and wf: "wf_names ts" by simp_all
  from 3(7) have ansc: "answered rem self site_id drive_id cs"
    and ans: "answered rem self site_id drive_id ts" by simp_all
  from sv obtain resp fc its where r: "rem (children_request self site_id drive_id (JStr i)) = Inr resp"
     "body_json resp = Some fc" "value_items fc = Inr its" "list_all2 represents its cs"
     "serves_nodes rem self site_id drive_id cs"
    unfolding serves_iff by blast
  from 3(9) have free0: "\<And>q. disk w (rq @ nm # q) = None" by simp
  define f1 where "f1 = (disk w)(rq @ [nm] \<mapsto> Dir)"
  let ?w1 = "w\<lparr>disk := f1\<rparr>"
  let ?w2 = "?w1\<lparr>sent := sent ?w1 @ [children_request self site_id drive_id (JStr i)]\<rparr>"
  from ensure_dir_joined[OF nm 3(8)] free0[of "[]"]
  have ed: "ensure_dir ?np w = (Inr (), ?w1)" by (simp add: f1_def)
  have g01: "grows (disk w) f1" using free0[of "[]"] by (auto simp: f1_def grows_def)
  from directory_at_grows[OF g01 3(8)] have dir1: "directory_at (cwd w) f1 p = Inr rq" .
  have f1_nm: "f1 (rq @ [nm]) = Some Dir" by (simp add: f1_def)
  from dir1 f1_nm have dir2: "directory_at (cwd ?w2) (disk ?w2) ?np = Inr (rq @ [nm])"
    by (simp add: directory_at_joined[OF nm])
  have below: "f1 ((rq @ [nm]) @ q) = None" if "q \<noteq> []" for q
    using free0[of q] that by (simp add: f1_def)
  have free2: "\<forall>t\<in>set cs. \<forall>q. disk ?w2 ((rq @ [nm]) @ node_name t # q) = None"
    using below by simp
  from 3(1)[OF r(4,5) n(2) wfc ansc dir2 free2, of "level + 1"]
  obtain w3 where sub: "download_folder_contents_loop m rem self site_id drive_id its ?np (level + 1) ?w2
      = Some (Inr (), w3)"
    and c3: "cwd w3 = cwd ?w2"
    and m3': "mirrors (rq @ [nm]) (local_image rem self site_id drive_id cs) (disk ?w2) (disk w3)"
    and s3': "stdout w3 = stdout ?w2 @ printed rem self site_id drive_id ?np cs"
    by blast
  from m3' have m3: "mirrors (rq @ [nm]) (local_image rem self site_id drive_id cs) f1 (disk w3)"
    by simp
  from s3' have s3: "stdout w3 = stdout w @ printed rem self site_id drive_id ?np cs" by simp
  have call: "download_folder_contents n rem self site_id drive_id (JStr i) ?np (level + 1) ?w1
      = Some (Inr (), w3)"
    using sub r(3) fetch_children_serves[of rem self site_id drive_id "JStr i" resp fc ?w1, OF r(1,2)]
    by (simp add: n(1))
  have g13: "grows f1 (disk w3)"
  proof (rule mirrors_grows[OF m3])
    fix q assume "local_image rem self site_id drive_id cs q \<noteq> None"
    then have "q \<noteq> []" by auto
    then show "f1 ((rq @ [nm]) @ q) = None" by (rule below)
  qed
  from directory_at_grows[OF g13 dir1] c3
  have dir3: "directory_at (cwd w3) (disk w3) p = Inr rq" by simp
  have free3: "\<forall>t\<in>set ts. \<forall>q. disk w3 (rq @ node_name t # q) = None"
  proof (intro ballI allI)
    fix t q assume t: "t \<in> set ts"
    with fresh have ne: "node_name t \<noteq> nm" by auto
    from mirrors_keeps_free[OF m3 ne, of q]
    have "disk w3 (rq @ node_name t # q) = f1 (rq @ node_name t # q)" .
    also have "\<dots> = disk w (rq @ node_name t # q)" using ne by (simp add: f1_def)
    also have "\<dots> = None" using 3(9) t by simp
    finally show "disk w3 (rq @ node_name t # q) = None" .
  qed
  from 3(2)[OF it(3) svn n(3) wf ans dir3 free3, of level]
  obtain w' where rest: "download_folder_contents_loop n rem self site_id drive_id rest p level w3
        = Some (Inr (), w')"
    and c': "cwd w' = cwd w3"
    and m': "mirrors rq (local_image rem self site_id drive_id ts) (disk w3) (disk w')"
    and s': "stdout w' = stdout w3 @ printed rem self site_id drive_id p ts"
    by auto
  have img: "local_image rem self site_id drive_id (RFolder i nm cs # ts)
      = (\<lambda>q. case q of [] \<Rightarrow> None
           | c # q' \<Rightarrow> if c = nm then (if q' = [] then Some Dir else local_image rem self site_id drive_id cs q')
                       else local_image rem self site_id drive_id ts q)"
    by (intro ext) simp
  have "mirrors rq (local_image rem self site_id drive_id (RFolder i nm cs # ts)) (disk w) (disk w')"
    unfolding img
    by (rule mirrors_folder[OF m3 m' f1_def image_absent[OF fresh] image_nil image_nil])
  moreover have "download_folder_contents_loop n rem self site_id drive_id items p level w
      = Some (Inr (), w')"
    using it(1,2) os_path_join_plain[OF nm, of p] ed call rest
    by (simp del: download_folder_contents.simps)
  moreover have "stdout w' = stdout w @ printed rem self site_id drive_id p (RFolder i nm cs # ts)"
    using s' s3 by simp
  moreover have "cwd w' = cwd w" using c' c3 by simp
  ultimately show ?case by blast
qed

lemma folder_paths_names:
  "q \<in> set (folder_paths ts) \<Longrightarrow> q \<noteq> [] \<and> hd q \<in> set (map node_name ts)"
  by (induction ts arbitrary: q rule: preorder.induct) auto

lemma fetched_names:
  "(q, b) \<in> set (fetched rem self site_id drive_id ts) \<Longrightarrow> q \<noteq> [] \<and> hd q \<in> set (map node_name ts)"
  by (induction ts arbitrary: q rule: preorder.induct) (auto split: sum.splits if_splits)

lemma skipped_names:
  "(q, l) \<in> set (skipped rem self site_id drive_id ts) \<Longrightarrow> q \<noteq> [] \<and> hd q \<in> set (map node_name ts)"
  by (induction ts arbitrary: q rule: preorder.induct) (auto split: sum.splits if_splits)

lemma image_dir_iff:
  "wf_names ts \<Longrightarrow>
   local_image rem self site_id drive_id ts q = Some Dir \<longleftrightarrow> q \<in> set (folder_paths ts)"
proof (induction ts arbitrary: q rule: preorder.induct)
  case 1
  show ?case by simp
next
  case (2 i nm mt ts)
  then show ?case
    using folder_paths_names[of q ts]
    by (auto split: sum.splits)
next
  case (3 i nm cs ts)
  show ?case
  proof (cases q)
    case Nil
    then show ?thesis using folder_paths_names[of "[]"] by auto
  next
    case (Cons c q')
    show ?thesis
    proof (cases "c = nm")
      case True
      with 3 Cons folder_paths_names[of "nm # q'" ts] show ?thesis by auto
    next
      case False
      with 3 Cons show ?thesis by auto
    qed
  qed
qed

lemma image_file_iff:
  "wf_names ts \<Longrightarrow>
   local_image rem self site_id drive_id ts q = Some (File b)
     \<longleftrightarrow> (q, b) \<in> set (fetched rem self site_id drive_id ts)"
proof (induction ts arbitrary: q rule: preorder.induct)
  case 1
  show ?case by simp
next
  case (2 i nm mt ts)
  then show ?case
    using fetched_names[of q b rem self site_id drive_id ts]
    by (auto split: sum.splits)
next
  case (3 i nm cs ts)
  show ?case
  proof (cases q)
    case Nil
    then show ?thesis using fetched_names[of "[]" b rem self site_id drive_id] by auto
  next
    case (Cons c q')
    show ?thesis
    proof (cases "c = nm")
      case True
      with 3 Cons fetched_names[of "nm # q'" b rem self site_id drive_id ts]
        fetched_names[of "[]" b rem self site_id drive_id cs]
      show ?thesis by (force simp: image_iff)
    next
      case False
      with 3 Cons show ?thesis by auto
    qed
  qed
qed

lemma skipped_image:
  "wf_names ts \<Longrightarrow> (q, l) \<in> set (skipped rem self site_id drive_id ts) \<Longrightarrow>
   local_image rem self site_id drive_id ts q = None"
proof (induction ts arbitrary: q rule: preorder.induct)
  case 1
  then show ?case by simp
next
  case (2 i nm mt ts)
  then show ?case
    using skipped_names[of q l rem self site_id drive_id ts]
    by (auto split: sum.splits if_splits)
next
  case (3 i nm cs ts)
  then show ?case
    using skipped_names[of q l rem self site_id drive_id ts]
      skipped_names[of _ l rem self site_id drive_id cs]
    by (auto split: list.splits)
qed

lemma skipped_printed:
  "(q, l) \<in> set (skipped rem self site_id drive_id ts) \<Longrightarrow>
   l \<in> set (printed rem self site_id drive_id p ts)"
  by (induction ts arbitrary: q p rule: preorder.induct) (auto split: sum.splits if_splits)

lemma length_folder_paths: "length (folder_paths ts) = count_folders ts"
  by (induction ts rule: preorder.induct) auto

lemma length_fetched_skipped:
  "answered rem self site_id drive_id ts \<Longrightarrow>
   length (fetched rem self site_id drive_id ts) + length (skipped rem self site_id drive_id ts)
     = count_files ts"
  by (induction ts rule: preorder.induct) (auto split: sum.splits)

lemma distinct_folder_paths: "wf_names ts \<Longrightarrow> distinct (folder_paths ts)"
proof (induction ts rule: preorder.induct)
  case 1
  show ?case by simp
next
  case (2 i nm mt ts)
  then show ?case by simp
next
  case (3 i nm cs ts)
  then have "distinct (folder_paths cs)" "distinct (folder_paths ts)" by simp_all
  moreover have "[nm] \<notin> set (folder_paths ts)" "nm # q \<notin> set (folder_paths ts)" for q
    using 3(3) folder_paths_names[of _ ts] by fastforce+
  moreover have "[] \<notin> set (folder_paths cs)" using folder_paths_names[of "[]" cs] by auto
  ultimately show ?case by (auto simp: distinct_map)
qed

lemma distinct_fetched:
  "wf_names ts \<Longrightarrow> distinct (map fst (fetched rem self site_id drive_id ts))"
proof (induction ts rule: preorder.induct)
  case 1
  show ?case by simp
next
  case (2 i nm mt ts)
  then show ?case
    using fetched_names[of "[nm]" _ rem self site_id drive_id ts]
    by (auto split: sum.splits)
next
  case (3 i nm cs ts)
  then have "distinct (map fst (fetched rem self site_id drive_id cs))"
    "distinct (map fst (fetched rem self site_id drive_id ts))" by simp_all
  moreover have "(nm # q, b) \<notin> set (fetched rem self site_id drive_id ts)" for q b
    using 3(3) fetched_names[of "nm # q" b rem self site_id drive_id ts] by auto
  ultimately show ?case
    by (auto simp: distinct_map comp_def inj_on_def)
qed

lemma flaky_serves:
  "serves flaky_remote example_client (JStr ''s1'') (JStr ''d1'') (JStr ''root'') flaky_tree"
  by (simp add: flaky_remote_def flaky_tree_def lost_item_def kept_item_def children_request_def
      authorized_get_def children_url_def json_response_def value_items_def)

lemma cut_serves:
  "serves cut_remote example_client (JStr ''s1'') (JStr ''d1'') (JStr ''root'') flaky_tree"
  by (simp add: cut_remote_def flaky_tree_def lost_item_def kept_item_def children_request_def
      authorized_get_def children_url_def json_response_def value_items_def)

text \<open>
  Claim C2 says that the download mirrors every well-formed tree: a local file for every
  remote file whose content was fetched, and a logged skip for every other one. That fails
  in three ways, each for a well-formed tree.

  The code never makes the local folder itself, it makes a directory only for a
  subfolder. In the script's own setting, the local path \<^verbatim>\<open>data\<close> on a disk that has no
  \<^verbatim>\<open>data\<close>, and for a tree of two files, the content of \<^verbatim>\<open>kept.txt\<close> is fetched with status
  200, \<^verbatim>\<open>open\<close> raises \<^verbatim>\<open>FileNotFoundError\<close>, the download ends there and the disk holds no
  file.

  When a content request gets no response, the exception of the HTTP library ends the
  download: the file is neither written nor reported as skipped.

  When the local folder holds something already, here a file with the name of a remote
  folder, \<^verbatim>\<open>os.path.exists\<close> is true, no directory is made, and writing the first file of the
  folder raises \<^verbatim>\<open>NotADirectoryError\<close>.
\<close>

theorem mirror_fails_on_well_formed_trees:
  "serves flaky_remote example_client (JStr ''s1'') (JStr ''d1'') (JStr ''root'') flaky_tree
   \<and> wf_names flaky_tree
   \<and> fetched flaky_remote example_client (JStr ''s1'') (JStr ''d1'') flaky_tree
       = [([''kept.txt''], ''kept'')]
   \<and> download_folder_contents 1 flaky_remote example_client (JStr ''s1'') (JStr ''d1'')
        (JStr ''root'') ''data'' 0 empty_world
       = Some (Inl FileNotFoundError,
               empty_world\<lparr>
                 sent := [children_request example_client (JStr ''s1'') (JStr ''d1'') (JStr ''root''),
                          content_request example_client (JStr ''s1'') (JStr ''d1'') ''l'',
                          content_request example_client (JStr ''s1'') (JStr ''d1'') ''k''],
                 stdout := [''Failed to download lost.txt: 404 - Not Found'']\<rparr>)
   \<and> disk empty_world [''data'', ''kept.txt''] = None
   \<and> serves cut_remote example_client (JStr ''s1'') (JStr ''d1'') (JStr ''root'') flaky_tree
   \<and> download_folder_contents 1 cut_remote example_client (JStr ''s1'') (JStr ''d1'')
        (JStr ''root'') ''data'' 0 data_world
       = Some (Inl RequestException,
               data_world\<lparr>
                 sent := [children_request example_client (JStr ''s1'') (JStr ''d1'') (JStr ''root''),
                          content_request example_client (JStr ''s1'') (JStr ''d1'') ''l'',
                          content_request example_client (JStr ''s1'') (JStr ''d1'') ''k''],
                 stdout := [''Failed to download lost.txt: 404 - Not Found'']\<rparr>)
   \<and> wf_names example_tree
   \<and> download_folder_contents 2 example_remote example_client (JStr ''s1'') (JStr ''d1'')
        (JStr ''root'') ''data'' 0 occupied_world
       = Some (Inl NotADirectoryError,
               occupied_world\<lparr>
                 sent := [children_request example_client (JStr ''s1'') (JStr ''d1'') (JStr ''root''),
                          children_request example_client (JStr ''s1'') (JStr ''d1'') (JStr ''a''),
                          content_request example_client (JStr ''s1'') (JStr ''d1'') ''q'']\<rparr>)"
proof -
  have str404: "str_int 404 = ''404''"
    by (simp add: str_int_def str_nat.simps digit_char_def)
  note defs = lost_item_def kept_item_def not_found_def example_client_def
        children_url_def children_request_def content_request_def authorized_get_def
        file_download_url_def resource_def fetch_children_def requests_get_def json_of_def
        json_response_def value_items_def os_path_join_def download_file_def open_wb_write_def
        ensure_dir_def os_path_exists_def ends_with_slash_def
        path_target_def components_def start_dir_def authorization_def str404 numeral_2_eq_2
  have "wf_names flaky_tree" "wf_names example_tree"
    by (simp_all add: flaky_tree_def example_tree_def plain_name_def)
  moreover have "fetched flaky_remote example_client (JStr ''s1'') (JStr ''d1'') flaky_tree
       = [([''kept.txt''], ''kept'')]"
    by (simp add: flaky_tree_def flaky_remote_def content_request_def authorized_get_def
        file_download_url_def children_url_def resource_def not_found_def)
  moreover have "download_folder_contents 1 flaky_remote example_client (JStr ''s1'') (JStr ''d1'')
        (JStr ''root'') ''data'' 0 empty_world
       = Some (Inl FileNotFoundError,
               empty_world\<lparr>
                 sent := [children_request example_client (JStr ''s1'') (JStr ''d1'') (JStr ''root''),
                          content_request example_client (JStr ''s1'') (JStr ''d1'') ''l'',
                          content_request example_client (JStr ''s1'') (JStr ''d1'') ''k''],
                 stdout := [''Failed to download lost.txt: 404 - Not Found'']\<rparr>)"
    by (simp add: defs flaky_remote_def empty_world_def)
  moreover have "download_folder_contents 1 cut_remote example_client (JStr ''s1'') (JStr ''d1'')
        (JStr ''root'') ''data'' 0 data_world
       = Some (Inl RequestException,
               data_world\<lparr>
                 sent := [children_request example_client (JStr ''s1'') (JStr ''d1'') (JStr ''root''),
                          content_request example_client (JStr ''s1'') (JStr ''d1'') ''l'',
                          content_request example_client (JStr ''s1'') (JStr ''d1'') ''k''],
                 stdout := [''Failed to download lost.txt: 404 - Not Found'']\<rparr>)"
    by (simp add: defs cut_remote_def data_world_def)
  moreover have "download_folder_contents 2 example_remote example_client (JStr ''s1'') (JStr ''d1'')
        (JStr ''root'') ''data'' 0 occupied_world
       = Some (Inl NotADirectoryError,
               occupied_world\<lparr>
                 sent := [children_request example_client (JStr ''s1'') (JStr ''d1'') (JStr ''root''),
                          children_request example_client (JStr ''s1'') (JStr ''d1'') (JStr ''a''),
                          content_request example_client (JStr ''s1'') (JStr ''d1'') ''q'']\<rparr>)"
    by (simp add: defs example_remote_def occupied_world_def)
  ultimately show ?thesis using flaky_serves cut_serves by (simp add: empty_world_def)
qed

text \<open>
  Claim C2, as the code has it. Let the remote side serve a finite well-formed tree below
  the folder (names plain and different between siblings) and answer every content
  request, and let the local folder lead to an existing directory with nothing below it.
  Then \<^verbatim>\<open>download_folder_contents\<close> returns normally, and below the local folder the disk
  holds exactly this: a directory at the path of every remote folder (same names, same
  nesting) and nowhere else, and a file at the path of every remote file whose content
  came with status 200, holding that content, and nowhere else. A file whose content came
  with another status has no local file, and its failure line was printed. Folders and
  paths correspond one to one, and so do files. Outside the local folder the disk is
  unchanged.
\<close>

theorem download_mirrors_tree:
  assumes "serves rem self site_id drive_id folder_id ts" and "height ts < fuel"
      and "wf_names ts" and "answered rem self site_id drive_id ts"
      and "directory_at (cwd w) (disk w) local_folder_path = Inr rq"
      and "nothing_below (disk w) rq"
  shows "\<exists>w'. download_folder_contents fuel rem self site_id drive_id folder_id local_folder_path level w
               = Some (Inr (), w')
         \<and> (\<forall>q. q \<noteq> [] \<longrightarrow>
               (disk w' (rq @ q) = Some Dir \<longleftrightarrow> q \<in> set (folder_paths ts)))
         \<and> (\<forall>q b. q \<noteq> [] \<longrightarrow>
               (disk w' (rq @ q) = Some (File b)
                  \<longleftrightarrow> (q, b) \<in> set (fetched rem self site_id drive_id ts)))
         \<and> (\<forall>ql \<in> set (skipped rem self site_id drive_id ts).
               disk w' (rq @ fst ql) = None \<and> snd ql \<in> set (stdout w'))
         \<and> (\<forall>q'. \<not> prefix rq q' \<longrightarrow> disk w' q' = disk w q')
         \<and> distinct (folder_paths ts) \<and> length (folder_paths ts) = count_folders ts
         \<and> distinct (map fst (fetched rem self site_id drive_id ts))
         \<and> length (fetched rem self site_id drive_id ts) + length (skipped rem self site_id drive_id ts)
             = count_files ts"
proof -
  from assms(6) have below_empty: "\<forall>q. q \<noteq> [] \<longrightarrow> disk w (rq @ q) = None"
    by (simp add: nothing_below_def)
  from assms(2) obtain n where n: "fuel = Suc n" "height ts \<le> n"
    by (cases fuel) auto
  from assms(1) obtain resp fc its where r:
    "rem (children_request self site_id drive_id folder_id) = Inr resp"
    "body_json resp = Some fc" "value_items fc = Inr its" "list_all2 represents its ts"
    "serves_nodes rem self site_id drive_id ts"
    unfolding serves_iff by blast
  let ?w1 = "w\<lparr>sent := sent w @ [children_request self site_id drive_id folder_id]\<rparr>"
  have dir: "directory_at (cwd ?w1) (disk ?w1) local_folder_path = Inr rq" using assms(5) by simp
  have free: "\<forall>t\<in>set ts. \<forall>q. disk ?w1 (rq @ node_name t # q) = None"
  proof (intro ballI allI)
    fix t q
    have "node_name t # q \<noteq> []" by simp
    with below_empty have "disk w (rq @ node_name t # q) = None" by blast
    then show "disk ?w1 (rq @ node_name t # q) = None" by simp
  qed
  from download_loop_image[OF r(4,5) n(2) assms(3,4) dir free, of level]
  obtain w' where loop: "download_folder_contents_loop n rem self site_id drive_id its
        local_folder_path level ?w1 = Some (Inr (), w')"
    and m: "mirrors rq (local_image rem self site_id drive_id ts) (disk w) (disk w')"
    and out: "stdout w' = stdout w @ printed rem self site_id drive_id local_folder_path ts"
    by auto
  have run: "download_folder_contents fuel rem self site_id drive_id folder_id local_folder_path level w
      = Some (Inr (), w')"
    using loop r(3) fetch_children_serves[of rem self site_id drive_id folder_id resp fc w, OF r(1,2)]
    by (simp add: n(1))
  have at: "disk w' (rq @ q) = local_image rem self site_id drive_id ts q" if "q \<noteq> []" for q
  proof -
    from m have "disk w' (rq @ q) = (case local_image rem self site_id drive_id ts q of
        None \<Rightarrow> disk w (rq @ q) | Some nd \<Rightarrow> Some nd)"
      by (simp add: mirrors_def)
    with below_empty that show ?thesis by (simp split: option.splits)
  qed
  have dirs: "\<forall>q. q \<noteq> [] \<longrightarrow> (disk w' (rq @ q) = Some Dir \<longleftrightarrow> q \<in> set (folder_paths ts))"
    using at image_dir_iff[OF assms(3)] by simp
  have files: "\<forall>q b. q \<noteq> [] \<longrightarrow> (disk w' (rq @ q) = Some (File b)
      \<longleftrightarrow> (q, b) \<in> set (fetched rem self site_id drive_id ts))"
    using at image_file_iff[OF assms(3)] by simp
  have skip: "\<forall>ql \<in> set (skipped rem self site_id drive_id ts).
      disk w' (rq @ fst ql) = None \<and> snd ql \<in> set (stdout w')"
  proof
    fix ql assume "ql \<in> set (skipped rem self site_id drive_id ts)"
    then have mem: "(fst ql, snd ql) \<in> set (skipped rem self site_id drive_id ts)" by simp
    from skipped_names[OF mem] have "fst ql \<noteq> []" by simp
    from at[OF this] skipped_image[OF assms(3) mem]
    have "disk w' (rq @ fst ql) = None" by simp
    moreover from skipped_printed[OF mem, of local_folder_path] out
    have "snd ql \<in> set (stdout w')" by simp
    ultimately show "disk w' (rq @ fst ql) = None \<and> snd ql \<in> set (stdout w')" by simp
  qed
  have outside: "\<forall>q'. \<not> prefix rq q' \<longrightarrow> disk w' q' = disk w q'"
    using m by (simp add: mirrors_def)
  from run dirs files skip outside distinct_folder_paths[OF assms(3)] length_folder_paths[of ts]
    distinct_fetched[OF assms(3)] length_fetched_skipped[OF assms(4)]
  show ?thesis by blast
qed

lemma data_world_ready:
  "directory_at (cwd data_world) (disk data_world) ''data'' = Inr [''data'']
   \<and> nothing_below (disk data_world) [''data'']"
  by (auto simp: directory_at_data nothing_below_def data_world_def)

theorem download_mirrors_tree_witness:
  "serves example_remote example_client (JStr ''s1'') (JStr ''d1'') (JStr ''root'') example_tree
   \<and> height example_tree < 2 \<and> wf_names example_tree
   \<and> answered example_remote example_client (JStr ''s1'') (JStr ''d1'') example_tree
   \<and> directory_at (cwd data_world) (disk data_world) ''data'' = Inr [''data'']
   \<and> nothing_below (disk data_world) [''data'']
   \<and> (\<exists>w'. download_folder_contents 2 example_remote example_client (JStr ''s1'') (JStr ''d1'')
               (JStr ''root'') ''data'' 0 data_world = Some (Inr (), w')
          \<and> disk w' [''data'', ''Reports''] = Some Dir
          \<and> disk w' [''data'', ''Reports'', ''q1.pdf''] = Some (File ''%PDF-1.7'')
          \<and> disk w' [''data'', ''readme.txt''] = Some (File ''read me''))
   \<and> serves flaky_remote example_client (JStr ''s1'') (JStr ''d1'') (JStr ''root'') flaky_tree
   \<and> height flaky_tree < 1 \<and> wf_names flaky_tree
   \<and> answered flaky_remote example_client (JStr ''s1'') (JStr ''d1'') flaky_tree
   \<and> (\<exists>w'. download_folder_contents 1 flaky_remote example_client (JStr ''s1'') (JStr ''d1'')
               (JStr ''root'') ''data'' 0 data_world = Some (Inr (), w')
          \<and> disk w' [''data'', ''lost.txt''] = None
          \<and> ''Failed to download lost.txt: 404 - Not Found'' \<in> set (stdout w')
          \<and> disk w' [''data'', ''kept.txt''] = Some (File ''kept''))"
proof -
  have str404: "str_int 404 = ''404''"
    by (simp add: str_int_def str_nat.simps digit_char_def)
  have h: "height example_tree < 2" "wf_names example_tree"
    by (simp_all add: example_tree_def plain_name_def)
  have a: "answered example_remote example_client (JStr ''s1'') (JStr ''d1'') example_tree"
    by (simp add: example_tree_def example_remote_def content_request_def authorized_get_def
        file_download_url_def children_url_def resource_def)
  have fh: "height flaky_tree < 1" "wf_names flaky_tree"
    by (simp_all add: flaky_tree_def plain_name_def)
  have fa: "answered flaky_remote example_client (JStr ''s1'') (JStr ''d1'') flaky_tree"
    by (simp add: flaky_tree_def flaky_remote_def content_request_def authorized_get_def
        file_download_url_def children_url_def resource_def)
  note ready = data_world_ready[THEN conjunct1] data_world_ready[THEN conjunct2]
  have fp: "[''Reports''] \<in> set (folder_paths example_tree)"
    by (simp add: example_tree_def)
  have ff: "([''Reports'', ''q1.pdf''], ''%PDF-1.7'')
        \<in> set (fetched example_remote example_client (JStr ''s1'') (JStr ''d1'') example_tree)"
     "([''readme.txt''], ''read me'')
        \<in> set (fetched example_remote example_client (JStr ''s1'') (JStr ''d1'') example_tree)"
    by (simp_all add: example_tree_def example_remote_def content_request_def authorized_get_def
        file_download_url_def children_url_def resource_def)
  have fs: "([''lost.txt''], ''Failed to download lost.txt: 404 - Not Found'')
        \<in> set (skipped flaky_remote example_client (JStr ''s1'') (JStr ''d1'') flaky_tree)"
    and fk: "([''kept.txt''], ''kept'')
        \<in> set (fetched flaky_remote example_client (JStr ''s1'') (JStr ''d1'') flaky_tree)"
    by (simp_all add: flaky_tree_def flaky_remote_def content_request_def authorized_get_def
        file_download_url_def children_url_def resource_def not_found_def failure_line_def str404)
  from download_mirrors_tree[OF example_serves h(1,2) a ready, of 0]
  obtain w1 where w1: "download_folder_contents 2 example_remote example_client (JStr ''s1'')
        (JStr ''d1'') (JStr ''root'') ''data'' 0 data_world = Some (Inr (), w1)"
    and d1: "\<forall>q. q \<noteq> [] \<longrightarrow> (disk w1 ([''data''] @ q) = Some Dir
        \<longleftrightarrow> q \<in> set (folder_paths example_tree))"
    and f1: "\<forall>q b. q \<noteq> [] \<longrightarrow> (disk w1 ([''data''] @ q) = Some (File b)
        \<longleftrightarrow> (q, b) \<in> set (fetched example_remote example_client (JStr ''s1'') (JStr ''d1'') example_tree))"
    by blast
  from d1[rule_format, of "[''Reports'']"] fp
  have e1: "disk w1 [''data'', ''Reports''] = Some Dir" by simp
  from f1[rule_format, of "[''Reports'', ''q1.pdf'']" "''%PDF-1.7''"] ff(1)
  have e2: "disk w1 [''data'', ''Reports'', ''q1.pdf''] = Some (File ''%PDF-1.7'')"
    by simp
  from f1[rule_format, of "[''readme.txt'']" "''read me''"] ff(2)
  have e3: "disk w1 [''data'', ''readme.txt''] = Some (File ''read me'')"
    by simp
  from download_mirrors_tree[OF flaky_serves fh(1,2) fa ready, of 0]
  obtain w2 where w2: "download_folder_contents 1 flaky_remote example_client (JStr ''s1'')
        (JStr ''d1'') (JStr ''root'') ''data'' 0 data_world = Some (Inr (), w2)"
    and f2: "\<forall>q b. q \<noteq> [] \<longrightarrow> (disk w2 ([''data''] @ q) = Some (File b)
        \<longleftrightarrow> (q, b) \<in> set (fetched flaky_remote example_client (JStr ''s1'') (JStr ''d1'') flaky_tree))"
    and s2: "\<forall>ql \<in> set (skipped flaky_remote example_client (JStr ''s1'') (JStr ''d1'') flaky_tree).
        disk w2 ([''data''] @ fst ql) = None \<and> snd ql \<in> set (stdout w2)"
    by blast
  from s2[rule_format, OF fs]
  have e4: "disk w2 [''data'', ''lost.txt''] = None"
    "''Failed to download lost.txt: 404 - Not Found'' \<in> set (stdout w2)"
    by simp_all
  from f2[rule_format, of "[''kept.txt'']" "''kept''"] fk
  have e5: "disk w2 [''data'', ''kept.txt''] = Some (File ''kept'')"
    by simp
  from example_serves h a ready w1 e1 e2 e3 flaky_serves fh fa w2 e4 e5
  show ?thesis by blast
qed

end
